theory Spec2Isabelle
  imports Complex_Main
begin

unbundle bit_operations_syntax

section \<open>Ewald summation kernels of YAFF (\<^verbatim>\<open>yaff/ewald.c\<close>)\<close>

text \<open>
  The two kernels \<^verbatim>\<open>compute_ewald_reci\<close> and \<^verbatim>\<open>compute_ewald_corr\<close> are embedded as
  HOL functions. A C \<^verbatim>\<open>double\<close> is a \<open>real\<close> (exact arithmetic, no rounding and no
  overflow), a C \<^verbatim>\<open>long\<close> is an \<open>int\<close>. An array reached through a pointer
  (\<^verbatim>\<open>double *pos\<close>) is a store from offsets to values; an optional output buffer
  (\<^verbatim>\<open>gpos\<close>, \<^verbatim>\<open>vtens\<close>, \<^verbatim>\<open>NULL\<close> when absent) is an \<open>option\<close> of a store. The arrays
  passed to one call do not overlap. The buffers a kernel writes are returned next to
  the energy.

  In \<^verbatim>\<open>compute_ewald_reci\<close> the divisors are \<open>volume\<close>, \<open>alpha\<close> and \<open>ksq\<close>; a quotient by
  zero there has HOL's value \<open>0\<close>, which concerns only \<open>volume = 0\<close>, \<open>alpha = 0\<close> and
  reciprocal lattices with a wave vector of length zero. In \<^verbatim>\<open>compute_ewald_corr\<close> the
  divisor is the distance of a listed pair, which the positions can make zero: then the
  C code computes \<open>0/0\<close>, NaN. There the energy and the entries of the two buffers are
  doubles that can be NaN, \<open>real option\<close> with \<open>None\<close> for NaN, and NaN propagates
  through sums, differences and products as in C.
\<close>

subsection \<open>Library functions and constants\<close>

type_synonym darray = "int \<Rightarrow> real"
type_synonym larray = "int \<Rightarrow> int"
type_synonym vec3 = "real \<times> real \<times> real"

text \<open>
  The error function of \<^verbatim>\<open>math.h\<close>, by its Maclaurin series
  \<open>erf x = 2/\<surd>\<pi> \<cdot> \<Sum>k. (-1)^k x^(2k+1) / ((2k+1) k!)\<close>.
\<close>


definition erf_coeffs :: "nat \<Rightarrow> real" where
  "erf_coeffs n =
     (if even n then 0
      else 2 / sqrt pi * ((- 1) ^ ((n - 1) div 2) / (real n * fact ((n - 1) div 2))))"

definition erf :: "real \<Rightarrow> real" where
  "erf x = (\<Sum>n. erf_coeffs n * x ^ n)"


text \<open>
  Modelled from the spec: the constants of \<^verbatim>\<open>constants.h\<close>, which is not among the
  sources; the spec writes them \<open>2\<pi>\<close>, \<open>\<surd>\<pi>\<close> and \<open>2/\<surd>\<pi>\<close>.
\<close>

definition M_TWO_PI :: real where
  "M_TWO_PI = 2 * pi"

definition M_SQRT_PI :: real where
  "M_SQRT_PI = sqrt pi"

definition M_TWO_DIV_SQRT_PI :: real where
  "M_TWO_DIV_SQRT_PI = 2 / sqrt pi"

text \<open>
  The minimum-image collaborator \<^verbatim>\<open>mic(delta, rvecs, gvecs, nvec)\<close> of \<^verbatim>\<open>mic.h\<close> is
  not among the sources. It rewrites the three components of \<open>delta\<close> in place; the
  kernels below take it as a parameter of this type and return the new \<open>delta\<close>.
  \<open>mic_unchanged\<close> is the collaborator's action on a displacement that already is
  the minimum image; it is used for evaluating the kernels on concrete inputs only.
\<close>

type_synonym mic_type = "vec3 \<Rightarrow> darray \<Rightarrow> darray \<Rightarrow> int \<Rightarrow> vec3"

definition mic_unchanged :: mic_type where
  "mic_unchanged delta rvecs gvecs nvec = delta"

subsection \<open>\<^verbatim>\<open>compute_ewald_reci\<close>\<close>

text \<open>Lines 43-45: the wave vector of the index triple.\<close>

definition kvec :: "darray \<Rightarrow> int \<Rightarrow> int \<Rightarrow> int \<Rightarrow> vec3" where
  "kvec gvecs j0 j1 j2 =
     (M_TWO_PI * (real_of_int j0 * gvecs 0 + real_of_int j1 * gvecs 3 + real_of_int j2 * gvecs 6),
      M_TWO_PI * (real_of_int j0 * gvecs 1 + real_of_int j1 * gvecs 4 + real_of_int j2 * gvecs 7),
      M_TWO_PI * (real_of_int j0 * gvecs 2 + real_of_int j1 * gvecs 5 + real_of_int j2 * gvecs 8))"

text \<open>Line 46.\<close>

definition ksq_of :: "vec3 \<Rightarrow> real" where
  "ksq_of k = (case k of (k0, k1, k2) \<Rightarrow> k0 * k0 + k1 * k1 + k2 * k2)"

text \<open>Line 50: the phase \<open>x\<close> of atom \<open>i\<close>.\<close>

definition kdot :: "vec3 \<Rightarrow> darray \<Rightarrow> int \<Rightarrow> real" where
  "kdot k pos i =
     (case k of (k0, k1, k2) \<Rightarrow> k0 * pos (3 * i) + k1 * pos (3 * i + 1) + k2 * pos (3 * i + 2))"

text \<open>
  Lines 50-58: the body of the first loop over the atoms. \<open>grad\<close> is the test
  \<^verbatim>\<open>gpos != NULL\<close>.
\<close>

definition reci_structure_step ::
  "vec3 \<Rightarrow> darray \<Rightarrow> darray \<Rightarrow> bool \<Rightarrow> int \<Rightarrow> real \<times> real \<times> darray \<Rightarrow> real \<times> real \<times> darray" where
  "reci_structure_step k pos charges grad i st =
     (case st of (cosfac, sinfac, work) \<Rightarrow>
        let x = kdot k pos i;
            c = charges i * cos x;
            s = charges i * sin x
        in (cosfac + c, sinfac + s,
            if grad then (work(2 * i := 2 * c))(2 * i + 1 := - 2 * s) else work))"

text \<open>Lines 64-67: the body of the second loop over the atoms.\<close>

definition reci_gradient_step ::
  "vec3 \<Rightarrow> real \<Rightarrow> real \<Rightarrow> real \<Rightarrow> darray \<Rightarrow> int \<Rightarrow> darray \<Rightarrow> darray" where
  "reci_gradient_step k c cosfac sinfac work i gp =
     (case k of (k0, k1, k2) \<Rightarrow>
        let x = c * (cosfac * work (2 * i + 1) + sinfac * work (2 * i));
            gp = gp(3 * i := gp (3 * i) + k0 * x);
            gp = gp(3 * i + 1 := gp (3 * i + 1) + k1 * x);
            gp = gp(3 * i + 2 := gp (3 * i + 2) + k2 * x)
        in gp)"

text \<open>
  Lines 42-69: the body of the innermost loop, on the state (energy, gpos, work).
  The test of line 42 is \<^verbatim>\<open>(j0==0)&&(j1==0)&(j2==0)\<close>: \<^verbatim>\<open>&\<close> binds tighter than
  \<^verbatim>\<open>&&\<close> and is the bitwise conjunction of the two comparison results.
  A loop \<^verbatim>\<open>for (i=0; i<natom; i++)\<close> is a \<open>fold\<close> over \<open>[0..natom - 1]\<close>.
\<close>

definition reci_term ::
  "darray \<Rightarrow> int \<Rightarrow> darray \<Rightarrow> darray \<Rightarrow> real \<Rightarrow> real \<Rightarrow> int \<Rightarrow> int \<Rightarrow> int \<Rightarrow>
   real \<times> darray option \<times> darray \<Rightarrow> real \<times> darray option \<times> darray" where
  "reci_term pos natom charges gvecs fac1 fac2 j0 j1 j2 st =
     (case st of (energy, gpos, work) \<Rightarrow>
        if j0 = 0 \<and> ((of_bool (j1 = 0) :: int) AND of_bool (j2 = 0)) \<noteq> 0 then st
        else
          let k = kvec gvecs j0 j1 j2;
              ksq = ksq_of k;
              (cosfac, sinfac, work) =
                 fold (reci_structure_step k pos charges (gpos \<noteq> None)) [0..natom - 1] (0, 0, work);
              c = fac1 * exp (- ksq * fac2) / ksq;
              energy = energy + c * (cosfac * cosfac + sinfac * sinfac);
              gpos = map_option (fold (reci_gradient_step k c cosfac sinfac work) [0..natom - 1]) gpos
          in (energy, gpos, work))"

text \<open>
  Lines 31-74. The result is the returned energy, the gradient buffer and the work
  buffer as the call leaves them.
\<close>

definition compute_ewald_reci ::
  "darray \<Rightarrow> int \<Rightarrow> darray \<Rightarrow> darray \<Rightarrow> real \<Rightarrow> real \<Rightarrow> larray \<Rightarrow> darray option \<Rightarrow> darray \<Rightarrow>
   real \<times> darray option \<times> darray" where
  "compute_ewald_reci pos natom charges gvecs volume alpha gmax gpos work =
     (let fac1 = M_TWO_PI / volume;
          fac2 = 0.25 / alpha / alpha
      in fold (\<lambda>j0. fold (\<lambda>j1. fold (\<lambda>j2. reci_term pos natom charges gvecs fac1 fac2 j0 j1 j2)
                 [- gmax 2..gmax 2]) [- gmax 1..gmax 1]) [- gmax 0..gmax 0]
           (0, gpos, work))"

subsection \<open>Doubles that can be NaN\<close>

text \<open>
  A double of \<^verbatim>\<open>compute_ewald_corr\<close>: a real number, or \<open>None\<close> for NaN. A sum, a
  difference or a product with a NaN operand is NaN (also \<open>0 * NaN\<close>).
\<close>

type_synonym dbl = "real option"
type_synonym dbuf = "int \<Rightarrow> real option"

definition nan_add :: "dbl \<Rightarrow> dbl \<Rightarrow> dbl" where
  "nan_add x y = (case x of None \<Rightarrow> None | Some a \<Rightarrow> (case y of None \<Rightarrow> None | Some b \<Rightarrow> Some (a + b)))"

definition nan_sub :: "dbl \<Rightarrow> dbl \<Rightarrow> dbl" where
  "nan_sub x y = (case x of None \<Rightarrow> None | Some a \<Rightarrow> (case y of None \<Rightarrow> None | Some b \<Rightarrow> Some (a - b)))"

definition nan_mul :: "dbl \<Rightarrow> dbl \<Rightarrow> dbl" where
  "nan_mul x y = (case x of None \<Rightarrow> None | Some a \<Rightarrow> (case y of None \<Rightarrow> None | Some b \<Rightarrow> Some (a * b)))"

definition nan_neg :: "dbl \<Rightarrow> dbl" where
  "nan_neg x = (case x of None \<Rightarrow> None | Some a \<Rightarrow> Some (- a))"

subsection \<open>\<^verbatim>\<open>compute_ewald_corr\<close>\<close>

text \<open>
  \<^verbatim>\<open>scaling_row_type\<close> of \<^verbatim>\<open>pair_pot.h\<close>; the fields \<^verbatim>\<open>i\<close> and \<^verbatim>\<open>scale\<close>. The array
  \<^verbatim>\<open>scaling\<close> with its length \<^verbatim>\<open>scaling_size\<close> is a list of rows.
\<close>

record scaling_row_type =
  row_i :: int
  row_scale :: real

text \<open>Lines 90-93: the displacement of the pair, after the minimum-image call.\<close>

definition pair_delta :: "mic_type \<Rightarrow> darray \<Rightarrow> int \<Rightarrow> int \<Rightarrow> darray \<Rightarrow> darray \<Rightarrow> vec3" where
  "pair_delta mic pos center_index other_index rvecs gvecs =
     mic (pos (3 * center_index) - pos (3 * other_index),
          pos (3 * center_index + 1) - pos (3 * other_index + 1),
          pos (3 * center_index + 2) - pos (3 * other_index + 2)) rvecs gvecs 3"

text \<open>Line 94.\<close>

definition vec_len :: "vec3 \<Rightarrow> real" where
  "vec_len delta = (case delta of (d0, d1, d2) \<Rightarrow> sqrt (d0 * d0 + d1 * d1 + d2 * d2))"

text \<open>
  Lines 95-96: \<^verbatim>\<open>x = alpha*d; pot = erf(x)/d\<close>. For \<open>d = 0\<close> the numerator is
  \<open>erf 0 = 0\<close> and the quotient is \<open>0/0\<close>: NaN.
\<close>

definition pair_pot :: "real \<Rightarrow> real \<Rightarrow> dbl" where
  "pair_pot alpha d = (let x = alpha * d in if d = 0 then None else Some (erf x / d))"

text \<open>Line 97.\<close>

definition pair_fac :: "darray \<Rightarrow> int \<Rightarrow> int \<Rightarrow> real \<Rightarrow> real" where
  "pair_fac charges center_index other_index s =
     (1 - s) * charges other_index * charges center_index"

text \<open>
  Line 99: \<^verbatim>\<open>g = -fac*(M_TWO_DIV_SQRT_PI*alpha*exp(-x*x) - pot)/d/d\<close>. For \<open>d = 0\<close>, \<open>pot\<close> is
  NaN and so is \<open>g\<close>, whatever \<open>fac\<close> is; otherwise \<open>pot\<close> is a number and both divisors
  are not zero.
\<close>

definition pair_g :: "real \<Rightarrow> real \<Rightarrow> real \<Rightarrow> dbl" where
  "pair_g alpha d fac =
     (let x = alpha * d
      in case pair_pot alpha d of
           None \<Rightarrow> None
         | Some pot \<Rightarrow> Some (- fac * (M_TWO_DIV_SQRT_PI * alpha * exp (- x * x) - pot) / d / d))"

text \<open>Lines 102-107.\<close>

definition gpos_pair_update :: "int \<Rightarrow> int \<Rightarrow> vec3 \<Rightarrow> dbl \<Rightarrow> dbuf \<Rightarrow> dbuf" where
  "gpos_pair_update center_index other_index delta g gp =
     (case delta of (d0, d1, d2) \<Rightarrow>
        let gp = gp(3 * center_index := nan_add (gp (3 * center_index)) (nan_mul (Some d0) g));
            gp = gp(3 * center_index + 1 := nan_add (gp (3 * center_index + 1)) (nan_mul (Some d1) g));
            gp = gp(3 * center_index + 2 := nan_add (gp (3 * center_index + 2)) (nan_mul (Some d2) g));
            gp = gp(3 * other_index := nan_sub (gp (3 * other_index)) (nan_mul (Some d0) g));
            gp = gp(3 * other_index + 1 := nan_sub (gp (3 * other_index + 1)) (nan_mul (Some d1) g));
            gp = gp(3 * other_index + 2 := nan_sub (gp (3 * other_index + 2)) (nan_mul (Some d2) g))
        in gp)"

text \<open>Lines 110-118.\<close>

definition vtens_pair_update :: "vec3 \<Rightarrow> dbl \<Rightarrow> dbuf \<Rightarrow> dbuf" where
  "vtens_pair_update delta g vt =
     (case delta of (d0, d1, d2) \<Rightarrow>
        let vt = vt(0 := nan_add (vt 0) (nan_mul (Some (d0 * d0)) g));
            vt = vt(1 := nan_add (vt 1) (nan_mul (Some (d1 * d0)) g));
            vt = vt(2 := nan_add (vt 2) (nan_mul (Some (d2 * d0)) g));
            vt = vt(3 := nan_add (vt 3) (nan_mul (Some (d0 * d1)) g));
            vt = vt(4 := nan_add (vt 4) (nan_mul (Some (d1 * d1)) g));
            vt = vt(5 := nan_add (vt 5) (nan_mul (Some (d2 * d1)) g));
            vt = vt(6 := nan_add (vt 6) (nan_mul (Some (d0 * d2)) g));
            vt = vt(7 := nan_add (vt 7) (nan_mul (Some (d1 * d2)) g));
            vt = vt(8 := nan_add (vt 8) (nan_mul (Some (d2 * d2)) g))
        in vt)"

text \<open>
  Lines 87-120: the body of the loop over the scaling rows, on the state
  (energy, gpos, vtens). The C code computes \<open>g\<close> only when one of the two buffers is
  present and reads it only then; here it is computed always and read under the same
  tests.
\<close>

definition corr_step ::
  "mic_type \<Rightarrow> darray \<Rightarrow> int \<Rightarrow> darray \<Rightarrow> darray \<Rightarrow> darray \<Rightarrow> real \<Rightarrow> scaling_row_type \<Rightarrow>
   dbl \<times> dbuf option \<times> dbuf option \<Rightarrow> dbl \<times> dbuf option \<times> dbuf option" where
  "corr_step mic pos center_index charges rvecs gvecs alpha row st =
     (case st of (energy, gpos, vtens) \<Rightarrow>
        let other_index = row_i row;
            s = row_scale row
        in if other_index \<ge> center_index then st
           else
             let delta = pair_delta mic pos center_index other_index rvecs gvecs;
                 d = vec_len delta;
                 pot = pair_pot alpha d;
                 fac = pair_fac charges center_index other_index s;
                 g = pair_g alpha d fac;
                 gpos = map_option (gpos_pair_update center_index other_index delta g) gpos;
                 vtens = map_option (vtens_pair_update delta g) vtens
             in (nan_sub energy (nan_mul (Some fac) pot), gpos, vtens))"

text \<open>
  Lines 76-123. The result is the returned energy and the two buffers as the call
  leaves them.
\<close>

definition compute_ewald_corr ::
  "mic_type \<Rightarrow> darray \<Rightarrow> int \<Rightarrow> darray \<Rightarrow> darray \<Rightarrow> darray \<Rightarrow> real \<Rightarrow> scaling_row_type list \<Rightarrow>
   dbuf option \<Rightarrow> dbuf option \<Rightarrow> dbl \<times> dbuf option \<times> dbuf option" where
  "compute_ewald_corr mic pos center_index charges rvecs gvecs alpha scaling gpos vtens =
     (let energy = Some 0;
          energy = nan_sub energy (Some (alpha / M_SQRT_PI * charges center_index * charges center_index))
      in fold (corr_step mic pos center_index charges rvecs gvecs alpha) scaling
           (energy, gpos, vtens))"

subsection \<open>Notions used in the statements\<close>

text \<open>The test of line 89, negated: the row is not skipped.\<close>

definition contributes :: "int \<Rightarrow> scaling_row_type \<Rightarrow> bool" where
  "contributes center_index row = (row_i row < center_index)"

text \<open>The distance \<open>d\<close> of line 94 for a pair of atoms.\<close>

definition pair_dist :: "mic_type \<Rightarrow> darray \<Rightarrow> int \<Rightarrow> int \<Rightarrow> darray \<Rightarrow> darray \<Rightarrow> real" where
  "pair_dist mic pos center_index other_index rvecs gvecs =
     vec_len (pair_delta mic pos center_index other_index rvecs gvecs)"

text \<open>Component \<open>a\<close> of a 3-vector (\<^verbatim>\<open>delta[a]\<close>, \<^verbatim>\<open>k[a]\<close>).\<close>

definition vec3_nth :: "vec3 \<Rightarrow> int \<Rightarrow> real" where
  "vec3_nth delta a = (case delta of (d0, d1, d2) \<Rightarrow> if a = 0 then d0 else if a = 1 then d1 else d2)"

text \<open>Symmetry of the row-major \<open>3\<times>3\<close> virial tensor: entries 1/3, 2/6 and 5/7 agree.\<close>

definition vtens_symmetric :: "dbuf \<Rightarrow> bool" where
  "vtens_symmetric vt = (vt 1 = vt 3 \<and> vt 2 = vt 6 \<and> vt 5 = vt 7)"

text \<open>
  The pairwise correction in the words of the spec. The distance of a pair is the length
  of the minimum-image displacement between the two atoms: the collaborator applied to
  the difference of the two positions. The term of a scaling row is
  \<open>-(1 - scale) \<cdot> q_center \<cdot> q_other \<cdot> erf(\<alpha> d)/d\<close>, which is \<open>0/0\<close> for \<open>d = 0\<close>. The sum of a
  list of terms starts from zero.
\<close>

definition min_image_dist :: "mic_type \<Rightarrow> darray \<Rightarrow> int \<Rightarrow> int \<Rightarrow> darray \<Rightarrow> darray \<Rightarrow> real" where
  "min_image_dist mic pos center_index other_index rvecs gvecs =
     (case mic (pos (3 * center_index) - pos (3 * other_index),
                pos (3 * center_index + 1) - pos (3 * other_index + 1),
                pos (3 * center_index + 2) - pos (3 * other_index + 2)) rvecs gvecs 3 of
        (x, y, z) \<Rightarrow> sqrt (x\<^sup>2 + y\<^sup>2 + z\<^sup>2))"

definition pair_term_spec ::
  "mic_type \<Rightarrow> darray \<Rightarrow> int \<Rightarrow> darray \<Rightarrow> darray \<Rightarrow> darray \<Rightarrow> real \<Rightarrow> scaling_row_type \<Rightarrow> dbl" where
  "pair_term_spec mic pos center_index charges rvecs gvecs alpha row =
     (let d = min_image_dist mic pos center_index (row_i row) rvecs gvecs
      in if d = 0 then None
         else Some (- (1 - row_scale row) * charges center_index * charges (row_i row)
                      * erf (alpha * d) / d))"

definition nan_sum :: "dbl list \<Rightarrow> dbl" where
  "nan_sum xs = foldr nan_add xs (Some 0)"

text \<open>
  The literal scenario of the spec, for evaluating the theorems on a concrete input:
  charges \<open>+1\<close> and \<open>-1\<close> at \<open>(0,0,0)\<close> and \<open>(2,0,0)\<close> in a cubic cell of side 10,
  \<open>gmax = (5,5,5)\<close>; buffers start at zero. \<open>scn_gmax1\<close> keeps the wave vectors
  \<open>(\<plusminus>1, 0, 0)\<close> only, and \<open>scn_coincident\<close> puts both atoms at the origin.
\<close>

definition scn_pos :: darray where
  "scn_pos = (\<lambda>m. if m = 3 then 2 else 0)"

definition scn_coincident :: darray where
  "scn_coincident = (\<lambda>m. 0)"

definition scn_charges :: darray where
  "scn_charges = (\<lambda>i. if i = 0 then 1 else - 1)"

definition scn_rvecs :: darray where
  "scn_rvecs = (\<lambda>m. if m = 0 \<or> m = 4 \<or> m = 8 then 10 else 0)"

definition scn_gvecs :: darray where
  "scn_gvecs = (\<lambda>m. if m = 0 \<or> m = 4 \<or> m = 8 then 1 / 10 else 0)"

definition scn_gmax :: larray where
  "scn_gmax = (\<lambda>d. 5)"


definition zero_buf :: darray where
  "zero_buf = (\<lambda>m. 0)"

definition zero_dbuf :: dbuf where
  "zero_dbuf = (\<lambda>m. Some 0)"


text \<open>The values of \<^verbatim>\<open>cosfac\<close> and \<^verbatim>\<open>sinfac\<close> after the loop of lines 49-59.\<close>

definition cosfac_of :: "vec3 \<Rightarrow> darray \<Rightarrow> darray \<Rightarrow> int \<Rightarrow> real" where
  "cosfac_of k pos charges natom = (\<Sum>i = 0..natom - 1. charges i * cos (kdot k pos i))"

definition sinfac_of :: "vec3 \<Rightarrow> darray \<Rightarrow> darray \<Rightarrow> int \<Rightarrow> real" where
  "sinfac_of k pos charges natom = (\<Sum>i = 0..natom - 1. charges i * sin (kdot k pos i))"

text \<open>The index triple that line 42 skips.\<close>

definition zero_triple :: "int \<Rightarrow> int \<Rightarrow> int \<Rightarrow> bool" where
  "zero_triple j0 j1 j2 = (j0 = 0 \<and> j1 = 0 \<and> j2 = 0)"

text \<open>Line 60: the factor \<open>c\<close> of a wave vector.\<close>

definition reci_coef :: "real \<Rightarrow> real \<Rightarrow> vec3 \<Rightarrow> real" where
  "reci_coef fac1 fac2 k = fac1 * exp (- ksq_of k * fac2) / ksq_of k"

text \<open>
  What one index triple adds to the energy (line 61), and what it adds to entry
  \<open>m\<close> of the gradient buffer (lines 63-68, with the work buffer of lines 56-57).
\<close>

definition reci_term_energy ::
  "darray \<Rightarrow> int \<Rightarrow> darray \<Rightarrow> darray \<Rightarrow> real \<Rightarrow> real \<Rightarrow> int \<Rightarrow> int \<Rightarrow> int \<Rightarrow> real" where
  "reci_term_energy pos natom charges gvecs fac1 fac2 j0 j1 j2 =
     (if zero_triple j0 j1 j2 then 0
      else let k = kvec gvecs j0 j1 j2
           in reci_coef fac1 fac2 k
              * (cosfac_of k pos charges natom * cosfac_of k pos charges natom
                 + sinfac_of k pos charges natom * sinfac_of k pos charges natom))"

definition atom_grad :: "vec3 \<Rightarrow> real \<Rightarrow> darray \<Rightarrow> int \<Rightarrow> darray \<Rightarrow> int \<Rightarrow> real" where
  "atom_grad k c pos natom charges i =
     c * (cosfac_of k pos charges natom * (- 2 * (charges i * sin (kdot k pos i)))
          + sinfac_of k pos charges natom * (2 * (charges i * cos (kdot k pos i))))"

definition reci_term_grad ::
  "darray \<Rightarrow> int \<Rightarrow> darray \<Rightarrow> darray \<Rightarrow> real \<Rightarrow> real \<Rightarrow> int \<Rightarrow> int \<Rightarrow> int \<Rightarrow> int \<Rightarrow> real" where
  "reci_term_grad pos natom charges gvecs fac1 fac2 j0 j1 j2 m =
     (if zero_triple j0 j1 j2 then 0
      else if 0 \<le> m div 3 \<and> m div 3 \<le> natom - 1
      then let k = kvec gvecs j0 j1 j2
           in vec3_nth k (m mod 3) * atom_grad k (reci_coef fac1 fac2 k) pos natom charges (m div 3)
      else 0)"

text \<open>
  The reciprocal-space energy in the words of the spec: the sum over the integer
  triples with \<open>|j\<^sub>d| \<le> gmax[d]\<close> other than the zero triple.
\<close>

definition reci_energy_spec ::
  "darray \<Rightarrow> int \<Rightarrow> darray \<Rightarrow> darray \<Rightarrow> real \<Rightarrow> real \<Rightarrow> larray \<Rightarrow> real" where
  "reci_energy_spec pos natom charges gvecs volume alpha gmax =
     (\<Sum>(j0, j1, j2) \<in> {- gmax 0..gmax 0} \<times> {- gmax 1..gmax 1} \<times> {- gmax 2..gmax 2} - {(0, 0, 0)}.
        let k0 = 2 * pi * (real_of_int j0 * gvecs 0 + real_of_int j1 * gvecs 3 + real_of_int j2 * gvecs 6);
            k1 = 2 * pi * (real_of_int j0 * gvecs 1 + real_of_int j1 * gvecs 4 + real_of_int j2 * gvecs 7);
            k2 = 2 * pi * (real_of_int j0 * gvecs 2 + real_of_int j1 * gvecs 5 + real_of_int j2 * gvecs 8);
            ksq = k0\<^sup>2 + k1\<^sup>2 + k2\<^sup>2;
            cosfac = (\<Sum>i = 0..natom - 1.
                        charges i * cos (k0 * pos (3 * i) + k1 * pos (3 * i + 1) + k2 * pos (3 * i + 2)));
            sinfac = (\<Sum>i = 0..natom - 1.
                        charges i * sin (k0 * pos (3 * i) + k1 * pos (3 * i + 1) + k2 * pos (3 * i + 2)))
        in 2 * pi / volume * exp (- ksq / (4 * alpha\<^sup>2)) / ksq * (cosfac\<^sup>2 + sinfac\<^sup>2))"

text \<open>The sums of the three nested loops of lines 39-41.\<close>

definition reci_total_energy ::
  "darray \<Rightarrow> int \<Rightarrow> darray \<Rightarrow> darray \<Rightarrow> real \<Rightarrow> real \<Rightarrow> larray \<Rightarrow> real" where
  "reci_total_energy pos natom charges gvecs fac1 fac2 gmax =
     (\<Sum>j0 = - gmax 0..gmax 0. \<Sum>j1 = - gmax 1..gmax 1. \<Sum>j2 = - gmax 2..gmax 2.
        reci_term_energy pos natom charges gvecs fac1 fac2 j0 j1 j2)"

definition reci_total_grad ::
  "darray \<Rightarrow> int \<Rightarrow> darray \<Rightarrow> darray \<Rightarrow> real \<Rightarrow> real \<Rightarrow> larray \<Rightarrow> int \<Rightarrow> real" where
  "reci_total_grad pos natom charges gvecs fac1 fac2 gmax m =
     (\<Sum>j0 = - gmax 0..gmax 0. \<Sum>j1 = - gmax 1..gmax 1. \<Sum>j2 = - gmax 2..gmax 2.
        reci_term_grad pos natom charges gvecs fac1 fac2 j0 j1 j2 m)"

text \<open>
  The configuration with every atom moved by the vector \<open>t\<close>, and the configuration
  with the atoms relabelled by \<open>p\<close> (the charges are relabelled by composition).
\<close>

definition translate_pos :: "darray \<Rightarrow> vec3 \<Rightarrow> darray" where
  "translate_pos pos t = (\<lambda>m. pos m + vec3_nth t (m mod 3))"

definition permute_atoms :: "(int \<Rightarrow> int) \<Rightarrow> darray \<Rightarrow> darray" where
  "permute_atoms p pos = (\<lambda>m. pos (3 * p (m div 3) + m mod 3))"

text \<open>Lines 90-92: the displacement of the pair before the minimum-image call.\<close>

definition raw_delta :: "darray \<Rightarrow> int \<Rightarrow> int \<Rightarrow> vec3" where
  "raw_delta pos center_index other_index =
     (pos (3 * center_index) - pos (3 * other_index),
      pos (3 * center_index + 1) - pos (3 * other_index + 1),
      pos (3 * center_index + 2) - pos (3 * other_index + 2))"

text \<open>
  The minimum-image collaborator is locally differentiable at a displacement: on a
  neighbourhood of it, it adds one fixed vector (a lattice vector) to its argument.
\<close>

definition mic_shift_near :: "mic_type \<Rightarrow> darray \<Rightarrow> darray \<Rightarrow> vec3 \<Rightarrow> bool" where
  "mic_shift_near mic rvecs gvecs delta =
     (\<exists>T0 T1 T2 eps. 0 < eps \<and>
        (\<forall>d0 d1 d2.
           \<bar>d0 - vec3_nth delta 0\<bar> < eps \<and> \<bar>d1 - vec3_nth delta 1\<bar> < eps \<and> \<bar>d2 - vec3_nth delta 2\<bar> < eps
           \<longrightarrow> mic (d0, d1, d2) rvecs gvecs 3 = (d0 + T0, d1 + T1, d2 + T2)))"

text \<open>
  How coordinate \<open>m\<close> of the position array enters component \<open>a\<close> of the displacement of
  the pair: \<open>+1\<close> for the centre atom, \<open>-1\<close> for the other atom, \<open>0\<close> otherwise; and what lines
  102-107 add to entry \<open>m\<close> of the gradient buffer when \<open>g\<close> is a number.
\<close>

definition pair_sign :: "int \<Rightarrow> int \<Rightarrow> int \<Rightarrow> int \<Rightarrow> real" where
  "pair_sign center_index other_index m a =
     of_bool (m = 3 * center_index + a) - of_bool (m = 3 * other_index + a)"

definition pair_grad_at :: "int \<Rightarrow> int \<Rightarrow> vec3 \<Rightarrow> real \<Rightarrow> int \<Rightarrow> real" where
  "pair_grad_at center_index other_index delta g m =
     g * (vec3_nth delta 0 * pair_sign center_index other_index m 0
          + vec3_nth delta 1 * pair_sign center_index other_index m 1
          + vec3_nth delta 2 * pair_sign center_index other_index m 2)"

text \<open>
  The values of \<open>g\<close> (line 99), of the energy term of a row (line 120) and of its
  gradient term (lines 102-107) as real numbers; they are what the code computes when the
  distance of the pair is not zero, and are used under that hypothesis only.
\<close>

definition pair_g_value :: "real \<Rightarrow> real \<Rightarrow> real \<Rightarrow> real" where
  "pair_g_value alpha d fac =
     - fac * (M_TWO_DIV_SQRT_PI * alpha * exp (- (alpha * d) * (alpha * d)) - erf (alpha * d) / d) / d / d"

definition pair_energy_value ::
  "mic_type \<Rightarrow> darray \<Rightarrow> int \<Rightarrow> darray \<Rightarrow> darray \<Rightarrow> darray \<Rightarrow> real \<Rightarrow> scaling_row_type \<Rightarrow> real" where
  "pair_energy_value mic pos center_index charges rvecs gvecs alpha row =
     (if contributes center_index row
      then - (pair_fac charges center_index (row_i row) (row_scale row)
              * (erf (alpha * pair_dist mic pos center_index (row_i row) rvecs gvecs)
                 / pair_dist mic pos center_index (row_i row) rvecs gvecs))
      else 0)"

definition pair_grad_value ::
  "mic_type \<Rightarrow> darray \<Rightarrow> int \<Rightarrow> darray \<Rightarrow> darray \<Rightarrow> darray \<Rightarrow> real \<Rightarrow> scaling_row_type \<Rightarrow> int \<Rightarrow> real" where
  "pair_grad_value mic pos center_index charges rvecs gvecs alpha row m =
     (if contributes center_index row
      then pair_grad_at center_index (row_i row)
             (pair_delta mic pos center_index (row_i row) rvecs gvecs)
             (pair_g_value alpha (pair_dist mic pos center_index (row_i row) rvecs gvecs)
                (pair_fac charges center_index (row_i row) (row_scale row))) m
      else 0)"

section \<open>Properties\<close>

subsection \<open>The error function\<close>

lemma erf_majorant_sums:
  "(\<lambda>n. if even n then 0 else \<bar>y\<bar> * ((y\<^sup>2) ^ ((n - 1) div 2) /\<^sub>R fact ((n - 1) div 2)))
     sums (\<bar>y\<bar> * exp (y\<^sup>2))"
  for y :: real
  by (rule sums_if') (rule sums_mult [OF exp_converges])

lemma erf_coeffs_bound:
  "norm (erf_coeffs n * y ^ n)
     \<le> 2 / sqrt pi * (if even n then 0 else \<bar>y\<bar> * ((y\<^sup>2) ^ ((n - 1) div 2) /\<^sub>R fact ((n - 1) div 2)))"
proof (cases "even n")
  case True
  then show ?thesis by (simp add: erf_coeffs_def)
next
  case False
  then obtain k where n: "n = Suc (2 * k)" by (auto elim: oddE)
  have "norm (erf_coeffs n * y ^ n) = 2 / sqrt pi * (\<bar>y\<bar> * (y\<^sup>2) ^ k / fact k) / real n"
    by (simp add: n erf_coeffs_def abs_mult power_abs power_mult divide_simps)
  also have "\<dots> \<le> 2 / sqrt pi * (\<bar>y\<bar> * (y\<^sup>2) ^ k / fact k) / 1"
    by (intro divide_left_mono) (simp_all add: n)
  finally show ?thesis
    by (simp add: n divide_inverse mult_ac)
qed

lemma erf_summable: "summable (\<lambda>n. erf_coeffs n * y ^ n)"
proof (rule summable_comparison_test')
  show "summable (\<lambda>n. 2 / sqrt pi * (if even n then 0 else \<bar>y\<bar> * ((y\<^sup>2) ^ ((n - 1) div 2) /\<^sub>R fact ((n - 1) div 2))))"
    by (intro summable_mult sums_summable [OF erf_majorant_sums])
  show "norm (erf_coeffs n * y ^ n) \<le> 2 / sqrt pi * (if even n then 0 else \<bar>y\<bar> * ((y\<^sup>2) ^ ((n - 1) div 2) /\<^sub>R fact ((n - 1) div 2)))"
    if "n \<ge> 0" for n
    by (rule erf_coeffs_bound)
qed

lemma diffs_erf_coeffs:
  "diffs erf_coeffs n = (if even n then 2 / sqrt pi * ((- 1) ^ (n div 2) / fact (n div 2)) else 0)"
  by (simp add: diffs_def erf_coeffs_def)

lemma erf_deriv_series:
  "(\<lambda>n. diffs erf_coeffs n * x ^ n) sums (2 / sqrt pi * exp (- x\<^sup>2))"
proof -
  have "(\<lambda>k. (- (x\<^sup>2)) ^ k /\<^sub>R fact k) sums exp (- (x\<^sup>2))"
    by (rule exp_converges)
  from sums_if [OF sums_zero this]
  have "(\<lambda>n. if even n then (- (x\<^sup>2)) ^ (n div 2) /\<^sub>R fact (n div 2) else 0) sums exp (- x\<^sup>2)"
    by simp
  from sums_mult [OF this, of "2 / sqrt pi"]
  have "(\<lambda>n. 2 / sqrt pi * (if even n then (- (x\<^sup>2)) ^ (n div 2) /\<^sub>R fact (n div 2) else 0))
          sums (2 / sqrt pi * exp (- x\<^sup>2))" .
  moreover have "2 / sqrt pi * (if even n then (- (x\<^sup>2)) ^ (n div 2) /\<^sub>R fact (n div 2) else 0)
      = diffs erf_coeffs n * x ^ n" for n
  proof (cases "even n")
    case True
    then obtain k where "n = 2 * k" by (auto elim: evenE)
    then show ?thesis
      by (simp add: diffs_erf_coeffs power_minus' divide_inverse power_mult)
  next
    case False
    then show ?thesis by (simp add: diffs_erf_coeffs)
  qed
  ultimately show ?thesis by simp
qed

lemma DERIV_erf: "(erf has_real_derivative 2 / sqrt pi * exp (- x\<^sup>2)) (at x)"
proof -
  have "((\<lambda>x. \<Sum>n. erf_coeffs n * x ^ n) has_real_derivative (\<Sum>n. diffs erf_coeffs n * x ^ n)) (at x)"
    by (rule termdiffs_strong_converges_everywhere) (rule erf_summable)
  moreover have "(\<Sum>n. diffs erf_coeffs n * x ^ n) = 2 / sqrt pi * exp (- x\<^sup>2)"
    by (rule sums_unique [symmetric]) (rule erf_deriv_series)
  moreover have "erf = (\<lambda>x. \<Sum>n. erf_coeffs n * x ^ n)"
    by (rule ext) (simp add: erf_def)
  ultimately show ?thesis by simp
qed





subsection \<open>The reciprocal kernel as a sum over the index triples\<close>

lemma and_of_bool: "((of_bool p :: int) AND of_bool q \<noteq> 0) = (p \<and> q)"
  by (cases p; cases q; simp)

lemma int_range_head: "a \<le> b \<Longrightarrow> {a..b} = insert a {a + 1..b}" for a b :: int
  by auto

lemma structure_fold:
  "fold (reci_structure_step k pos q grad) [a..b] (cf, sf, w) =
     (cf + (\<Sum>i = a..b. q i * cos (kdot k pos i)),
      sf + (\<Sum>i = a..b. q i * sin (kdot k pos i)),
      if grad then
        (\<lambda>m. if a \<le> m div 2 \<and> m div 2 \<le> b
             then (if even m then 2 * (q (m div 2) * cos (kdot k pos (m div 2)))
                   else - 2 * (q (m div 2) * sin (kdot k pos (m div 2))))
             else w m)
      else w)"
proof (induction a b arbitrary: cf sf w rule: upto.induct)
  case (1 a b)
  show ?case
  proof (cases "a \<le> b")
    case False
    then show ?thesis by (auto simp: upto_rec1 [of a b])
  next
    case True
    have w: "(\<lambda>m. if a + 1 \<le> m div 2 \<and> m div 2 \<le> b then F m
                 else ((w(2 * a := x))(2 * a + 1 := y)) m)
           = (\<lambda>m. if a \<le> m div 2 \<and> m div 2 \<le> b
                 then (if m div 2 = a then (if even m then x else y) else F m) else w m)"
      for F :: "int \<Rightarrow> real" and x y
    proof (rule ext)
      fix m :: int
      have "m = 2 * a \<longleftrightarrow> m div 2 = a \<and> even m" by presburger
      moreover have "m = 2 * a + 1 \<longleftrightarrow> m div 2 = a \<and> odd m" by presburger
      ultimately show "(if a + 1 \<le> m div 2 \<and> m div 2 \<le> b then F m
                 else ((w(2 * a := x))(2 * a + 1 := y)) m)
           = (if a \<le> m div 2 \<and> m div 2 \<le> b
                 then (if m div 2 = a then (if even m then x else y) else F m) else w m)"
        using True by auto
    qed
    have eqw: "(\<lambda>m. if a \<le> m div 2 \<and> m div 2 \<le> b
                 then (if m div 2 = a then (if even m then 2 * (q a * cos (kdot k pos a))
                          else - 2 * (q a * sin (kdot k pos a)))
                       else (if even m then 2 * (q (m div 2) * cos (kdot k pos (m div 2)))
                   else - 2 * (q (m div 2) * sin (kdot k pos (m div 2))))) else w m)
       = (\<lambda>m. if a \<le> m div 2 \<and> m div 2 \<le> b
             then (if even m then 2 * (q (m div 2) * cos (kdot k pos (m div 2)))
                   else - 2 * (q (m div 2) * sin (kdot k pos (m div 2))))
             else w m)"
      by (rule ext) auto
    let ?c = "q a * cos (kdot k pos a)" and ?s = "q a * sin (kdot k pos a)"
    have st: "reci_structure_step k pos q grad a (cf, sf, w) =
        (cf + ?c, sf + ?s, if grad then (w(2 * a := 2 * ?c))(2 * a + 1 := - 2 * ?s) else w)"
      by (simp add: reci_structure_step_def Let_def)
    have "fold (reci_structure_step k pos q grad) [a..b] (cf, sf, w) =
        fold (reci_structure_step k pos q grad) [a + 1..b]
          (cf + ?c, sf + ?s, if grad then (w(2 * a := 2 * ?c))(2 * a + 1 := - 2 * ?s) else w)"
      using True by (simp add: upto_rec1 [of a b] st)
    also have "\<dots> = (cf + ?c + (\<Sum>i = a + 1..b. q i * cos (kdot k pos i)),
      sf + ?s + (\<Sum>i = a + 1..b. q i * sin (kdot k pos i)),
      if grad then
        (\<lambda>m. if a + 1 \<le> m div 2 \<and> m div 2 \<le> b
             then (if even m then 2 * (q (m div 2) * cos (kdot k pos (m div 2)))
                   else - 2 * (q (m div 2) * sin (kdot k pos (m div 2))))
             else (if grad then (w(2 * a := 2 * ?c))(2 * a + 1 := - 2 * ?s) else w) m)
      else (if grad then (w(2 * a := 2 * ?c))(2 * a + 1 := - 2 * ?s) else w))"
      by (rule "1.IH" [OF True])
    also have "\<dots> = (cf + (\<Sum>i = a..b. q i * cos (kdot k pos i)),
      sf + (\<Sum>i = a..b. q i * sin (kdot k pos i)),
      if grad then
        (\<lambda>m. if a \<le> m div 2 \<and> m div 2 \<le> b
             then (if even m then 2 * (q (m div 2) * cos (kdot k pos (m div 2)))
                   else - 2 * (q (m div 2) * sin (kdot k pos (m div 2))))
             else w m)
      else w)"
      by (simp add: int_range_head [OF True] w eqw add.assoc)
    finally show ?thesis .
  qed
qed

lemma reci_gradient_step_eq:
  "reci_gradient_step k c cf sf w a gp =
     (\<lambda>m. if m div 3 = a
          then gp m + vec3_nth k (m mod 3) * (c * (cf * w (2 * a + 1) + sf * w (2 * a)))
          else gp m)"
proof (rule ext)
  fix m :: int
  obtain k0 k1 k2 where k: "k = (k0, k1, k2)" by (cases k) auto
  have dm: "(3 * a) div 3 = a" "(3 * a) mod 3 = 0" "(3 * a + 1) div 3 = a" "(3 * a + 1) mod 3 = 1"
    "(3 * a + 2) div 3 = a" "(3 * a + 2) mod 3 = 2"
    by presburger+
  have "m = 3 * a \<or> m = 3 * a + 1 \<or> m = 3 * a + 2
      \<or> (m div 3 \<noteq> a \<and> m \<noteq> 3 * a \<and> m \<noteq> 3 * a + 1 \<and> m \<noteq> 3 * a + 2)"
    by presburger
  then consider (c0) "m = 3 * a" | (c1) "m = 3 * a + 1" | (c2) "m = 3 * a + 2"
    | (other) "m div 3 \<noteq> a" "m \<noteq> 3 * a" "m \<noteq> 3 * a + 1" "m \<noteq> 3 * a + 2"
    by blast
  then show "reci_gradient_step k c cf sf w a gp m =
     (if m div 3 = a
          then gp m + vec3_nth k (m mod 3) * (c * (cf * w (2 * a + 1) + sf * w (2 * a)))
          else gp m)"
  proof cases
    case c0
    then show ?thesis by (simp add: reci_gradient_step_def k Let_def vec3_nth_def dm)
  next
    case c1
    then show ?thesis by (simp add: reci_gradient_step_def k Let_def vec3_nth_def dm)
  next
    case c2
    then show ?thesis by (simp add: reci_gradient_step_def k Let_def vec3_nth_def dm)
  next
    case other
    then show ?thesis by (simp add: reci_gradient_step_def k Let_def)
  qed
qed

lemma gradient_fold:
  "fold (reci_gradient_step k c cf sf w) [a..b] gp =
     (\<lambda>m. if a \<le> m div 3 \<and> m div 3 \<le> b
          then gp m + vec3_nth k (m mod 3)
                 * (c * (cf * w (2 * (m div 3) + 1) + sf * w (2 * (m div 3))))
          else gp m)"
proof (induction a b arbitrary: gp rule: upto.induct)
  case (1 a b)
  show ?case
  proof (cases "a \<le> b")
    case False
    then show ?thesis by (auto simp: upto_rec1 [of a b])
  next
    case True
    have "fold (reci_gradient_step k c cf sf w) [a..b] gp =
        fold (reci_gradient_step k c cf sf w) [a + 1..b] (reci_gradient_step k c cf sf w a gp)"
      using True by (simp add: upto_rec1 [of a b])
    also have "\<dots> = (\<lambda>m. if a + 1 \<le> m div 3 \<and> m div 3 \<le> b
          then reci_gradient_step k c cf sf w a gp m + vec3_nth k (m mod 3)
                 * (c * (cf * w (2 * (m div 3) + 1) + sf * w (2 * (m div 3))))
          else reci_gradient_step k c cf sf w a gp m)"
      by (rule "1.IH" [OF True])
    also have "\<dots> = (\<lambda>m. if a \<le> m div 3 \<and> m div 3 \<le> b
          then gp m + vec3_nth k (m mod 3)
                 * (c * (cf * w (2 * (m div 3) + 1) + sf * w (2 * (m div 3))))
          else gp m)"
      using True by (intro ext) (auto simp add: reci_gradient_step_eq)
    finally show ?thesis .
  qed
qed

lemma reci_term_fst:
  "fst (reci_term pos n q gv fac1 fac2 j0 j1 j2 (e, gpos, w)) =
     e + reci_term_energy pos n q gv fac1 fac2 j0 j1 j2"
  by (simp add: reci_term_def and_of_bool structure_fold Let_def reci_term_energy_def zero_triple_def
      reci_coef_def cosfac_of_def sinfac_of_def)

lemma reci_term_gpos:
  "fst (snd (reci_term pos n q gv fac1 fac2 j0 j1 j2 (e, gpos, w))) =
     map_option (\<lambda>gp m. gp m + reci_term_grad pos n q gv fac1 fac2 j0 j1 j2 m) gpos"
proof (cases gpos)
  case None
  then show ?thesis
    by (simp add: reci_term_def and_of_bool structure_fold Let_def)
next
  case (Some gp)
  show ?thesis
  proof (cases "zero_triple j0 j1 j2")
    case True
    then show ?thesis
      by (simp add: Some reci_term_def and_of_bool zero_triple_def reci_term_grad_def)
  next
    case False
    have e: "even (2 * i)" "(2 * i + 1) div 2 = i" "odd (2 * i + 1)" for i :: int
      by simp_all
    from False show ?thesis
      by (auto simp add: Some reci_term_def and_of_bool zero_triple_def reci_term_grad_def
          structure_fold gradient_fold Let_def atom_grad_def reci_coef_def cosfac_of_def
          sinfac_of_def e)
  qed
qed

lemma fold_accumulate:
  fixes f :: "'x \<Rightarrow> real \<times> darray option \<times> 'w \<Rightarrow> real \<times> darray option \<times> 'w"
  assumes E: "\<And>x e g w. fst (f x (e, g, w)) = e + T x"
    and G: "\<And>x e g w. fst (snd (f x (e, g, w))) = map_option (\<lambda>gp m. gp m + D x m) g"
  shows "fst (fold f xs (e, g, w)) = e + (\<Sum>x\<leftarrow>xs. T x)
     \<and> fst (snd (fold f xs (e, g, w))) = map_option (\<lambda>gp m. gp m + (\<Sum>x\<leftarrow>xs. D x m)) g"
proof (induction xs arbitrary: e g w)
  case Nil
  show ?case by (simp add: option.map_ident)
next
  case (Cons x xs)
  obtain e1 g1 w1 where s: "f x (e, g, w) = (e1, g1, w1)"
    by (cases "f x (e, g, w)") auto
  from E [of x e g w] G [of x e g w] s
  have e1: "e1 = e + T x" and g1: "g1 = map_option (\<lambda>gp m. gp m + D x m) g"
    by simp_all
  show ?case
    by (simp add: s Cons.IH e1 g1 option.map_comp comp_def add.assoc)
qed

lemma sum_list_upto: "(\<Sum>x\<leftarrow>[a..b]. h x) = (\<Sum>x = a..b. h x)" for h :: "int \<Rightarrow> real"
  by (simp add: sum_list_distinct_conv_sum_set)

lemma reci_closed_form:
  "fst (compute_ewald_reci pos n q gv vol al gmax gpos work) =
     reci_total_energy pos n q gv (M_TWO_PI / vol) (0.25 / al / al) gmax
   \<and> fst (snd (compute_ewald_reci pos n q gv vol al gmax gpos work)) =
     map_option (\<lambda>gp m. gp m + reci_total_grad pos n q gv (M_TWO_PI / vol) (0.25 / al / al) gmax m) gpos"
proof -
  let ?f1 = "M_TWO_PI / vol" and ?f2 = "0.25 / al / al"
  let ?t = "reci_term pos n q gv ?f1 ?f2"
  let ?E = "reci_term_energy pos n q gv ?f1 ?f2" and ?D = "reci_term_grad pos n q gv ?f1 ?f2"
  have l2: "fst (fold (?t j0 j1) xs (e, g, w)) = e + (\<Sum>j2\<leftarrow>xs. ?E j0 j1 j2)
     \<and> fst (snd (fold (?t j0 j1) xs (e, g, w))) =
         map_option (\<lambda>gp m. gp m + (\<Sum>j2\<leftarrow>xs. ?D j0 j1 j2 m)) g"
    for j0 j1 xs e g w
    by (rule fold_accumulate [OF reci_term_fst reci_term_gpos])
  have l1: "fst (fold (\<lambda>j1. fold (?t j0 j1) ys) xs (e, g, w)) =
         e + (\<Sum>j1\<leftarrow>xs. \<Sum>j2\<leftarrow>ys. ?E j0 j1 j2)
     \<and> fst (snd (fold (\<lambda>j1. fold (?t j0 j1) ys) xs (e, g, w))) =
         map_option (\<lambda>gp m. gp m + (\<Sum>j1\<leftarrow>xs. \<Sum>j2\<leftarrow>ys. ?D j0 j1 j2 m)) g"
    for j0 xs ys e g w
    by (rule fold_accumulate [OF conjunct1 [OF l2] conjunct2 [OF l2]])
  have l0: "fst (fold (\<lambda>j0. fold (\<lambda>j1. fold (?t j0 j1) zs) ys) xs (e, g, w)) =
         e + (\<Sum>j0\<leftarrow>xs. \<Sum>j1\<leftarrow>ys. \<Sum>j2\<leftarrow>zs. ?E j0 j1 j2)
     \<and> fst (snd (fold (\<lambda>j0. fold (\<lambda>j1. fold (?t j0 j1) zs) ys) xs (e, g, w))) =
         map_option (\<lambda>gp m. gp m + (\<Sum>j0\<leftarrow>xs. \<Sum>j1\<leftarrow>ys. \<Sum>j2\<leftarrow>zs. ?D j0 j1 j2 m)) g"
    for xs ys zs e g w
    by (rule fold_accumulate [OF conjunct1 [OF l1] conjunct2 [OF l1]])
  show ?thesis
    unfolding compute_ewald_reci_def Let_def reci_total_energy_def reci_total_grad_def
    by (simp only: l0 sum_list_upto add_0 simp_thms)
qed

lemma reci_term_energy_spec_form:
  assumes "\<not> zero_triple j0 j1 j2"
  shows "reci_term_energy pos n q gv (M_TWO_PI / vol) (0.25 / al / al) j0 j1 j2 =
    (let k0 = 2 * pi * (real_of_int j0 * gv 0 + real_of_int j1 * gv 3 + real_of_int j2 * gv 6);
         k1 = 2 * pi * (real_of_int j0 * gv 1 + real_of_int j1 * gv 4 + real_of_int j2 * gv 7);
         k2 = 2 * pi * (real_of_int j0 * gv 2 + real_of_int j1 * gv 5 + real_of_int j2 * gv 8);
         ksq = k0\<^sup>2 + k1\<^sup>2 + k2\<^sup>2;
         cosfac = (\<Sum>i = 0..n - 1. q i * cos (k0 * pos (3 * i) + k1 * pos (3 * i + 1) + k2 * pos (3 * i + 2)));
         sinfac = (\<Sum>i = 0..n - 1. q i * sin (k0 * pos (3 * i) + k1 * pos (3 * i + 1) + k2 * pos (3 * i + 2)))
     in 2 * pi / vol * exp (- ksq / (4 * al\<^sup>2)) / ksq * (cosfac\<^sup>2 + sinfac\<^sup>2))"
  using assms
  by (simp add: reci_term_energy_def reci_coef_def cosfac_of_def sinfac_of_def kvec_def ksq_of_def
      kdot_def M_TWO_PI_def Let_def power2_eq_square)

lemma reci_total_energy_spec:
  "reci_total_energy pos n q gv (M_TWO_PI / vol) (0.25 / al / al) gmax =
     reci_energy_spec pos n q gv vol al gmax"
proof -
  let ?A = "{- gmax 0..gmax 0}" and ?B = "{- gmax 1..gmax 1}" and ?C = "{- gmax 2..gmax 2}"
  let ?E = "reci_term_energy pos n q gv (M_TWO_PI / vol) (0.25 / al / al)"
  have "reci_total_energy pos n q gv (M_TWO_PI / vol) (0.25 / al / al) gmax =
      (\<Sum>(j0, j1, j2) \<in> ?A \<times> ?B \<times> ?C. ?E j0 j1 j2)"
    by (simp add: reci_total_energy_def sum.cartesian_product)
  also have "\<dots> = (\<Sum>(j0, j1, j2) \<in> ?A \<times> ?B \<times> ?C - {(0, 0, 0)}. ?E j0 j1 j2)"
    by (rule sum.mono_neutral_right)
       (auto simp add: reci_term_energy_def zero_triple_def)
  also have "\<dots> = reci_energy_spec pos n q gv vol al gmax"
    unfolding reci_energy_spec_def
  proof (rule sum.cong [OF refl])
    fix x
    assume x: "x \<in> ?A \<times> ?B \<times> ?C - {(0, 0, 0)}"
    obtain j0 j1 j2 where j: "x = (j0, j1, j2)" by (cases x) auto
    from x j have nz: "\<not> zero_triple j0 j1 j2" by (simp add: zero_triple_def)
    show "(case x of (j0, j1, j2) \<Rightarrow> ?E j0 j1 j2) =
      (case x of (j0, j1, j2) \<Rightarrow>
        let k0 = 2 * pi * (real_of_int j0 * gv 0 + real_of_int j1 * gv 3 + real_of_int j2 * gv 6);
            k1 = 2 * pi * (real_of_int j0 * gv 1 + real_of_int j1 * gv 4 + real_of_int j2 * gv 7);
            k2 = 2 * pi * (real_of_int j0 * gv 2 + real_of_int j1 * gv 5 + real_of_int j2 * gv 8);
            ksq = k0\<^sup>2 + k1\<^sup>2 + k2\<^sup>2;
            cosfac = (\<Sum>i = 0..n - 1.
                        q i * cos (k0 * pos (3 * i) + k1 * pos (3 * i + 1) + k2 * pos (3 * i + 2)));
            sinfac = (\<Sum>i = 0..n - 1.
                        q i * sin (k0 * pos (3 * i) + k1 * pos (3 * i + 1) + k2 * pos (3 * i + 2)))
        in 2 * pi / vol * exp (- ksq / (4 * al\<^sup>2)) / ksq * (cosfac\<^sup>2 + sinfac\<^sup>2))"
      by (simp only: j prod.case reci_term_energy_spec_form [OF nz])
  qed
  finally show ?thesis .
qed

text \<open>
  C1. The energy returned by \<open>compute_ewald_reci\<close> is the sum, over all integer triples
  \<open>(j0, j1, j2)\<close> with \<open>|j\<^sub>d| \<le> gmax[d]\<close> other than \<open>(0, 0, 0)\<close>, of
  \<open>(2\<pi>/V) \<cdot> exp(-ksq/(4\<alpha>\<^sup>2))/ksq \<cdot> (cosfac\<^sup>2 + sinfac\<^sup>2)\<close>; the zero triple contributes
  nothing.
\<close>

theorem reci_energy_formula:
  "fst (compute_ewald_reci pos natom charges gvecs volume alpha gmax gpos work) =
     reci_energy_spec pos natom charges gvecs volume alpha gmax"
  by (simp only: conjunct1 [OF reci_closed_form] reci_total_energy_spec)

lemma atom_grad_sum_zero: "(\<Sum>i = 0..n - 1. atom_grad k c pos n q i) = 0"
proof -
  have "(\<Sum>i = 0..n - 1. atom_grad k c pos n q i) =
      c * (cosfac_of k pos q n * (- 2 * sinfac_of k pos q n)
           + sinfac_of k pos q n * (2 * cosfac_of k pos q n))"
    unfolding atom_grad_def
    by (simp only: sum_distrib_left [symmetric] sum.distrib
        sinfac_of_def [of k pos q n] cosfac_of_def [of k pos q n])
  then show ?thesis by simp
qed

lemma reci_term_grad_sum_zero:
  assumes "b \<in> {0, 1, 2}"
  shows "(\<Sum>i = 0..n - 1. reci_term_grad pos n q gv f1 f2 j0 j1 j2 (3 * i + b)) = 0"
proof (cases "zero_triple j0 j1 j2")
  case True
  then show ?thesis by (simp add: reci_term_grad_def)
next
  case False
  have dm: "(3 * i + b) div 3 = i" "(3 * i + b) mod 3 = b" for i
    using assms by auto
  have "(\<Sum>i = 0..n - 1. reci_term_grad pos n q gv f1 f2 j0 j1 j2 (3 * i + b)) =
      (\<Sum>i = 0..n - 1. vec3_nth (kvec gv j0 j1 j2) b
           * atom_grad (kvec gv j0 j1 j2) (reci_coef f1 f2 (kvec gv j0 j1 j2)) pos n q i)"
    by (rule sum.cong [OF refl]) (simp only: reci_term_grad_def False dm Let_def, simp)
  also have "\<dots> = 0"
    by (simp only: sum_distrib_left [symmetric] atom_grad_sum_zero mult_zero_right)
  finally show ?thesis .
qed

lemma reci_total_grad_sum_zero:
  assumes "b \<in> {0, 1, 2}"
  shows "(\<Sum>i = 0..n - 1. reci_total_grad pos n q gv f1 f2 gmax (3 * i + b)) = 0"
proof -
  let ?D = "reci_term_grad pos n q gv f1 f2"
  have "(\<Sum>i = 0..n - 1. reci_total_grad pos n q gv f1 f2 gmax (3 * i + b)) =
     (\<Sum>j0 = - gmax 0..gmax 0. \<Sum>j1 = - gmax 1..gmax 1. \<Sum>j2 = - gmax 2..gmax 2.
        \<Sum>i = 0..n - 1. ?D j0 j1 j2 (3 * i + b))"
    unfolding reci_total_grad_def
    apply (rule trans [OF sum.swap])
    apply (rule sum.cong [OF refl])
    apply (rule trans [OF sum.swap])
    apply (rule sum.cong [OF refl])
    apply (rule sum.swap)
    done
  also have "\<dots> = 0"
    by (simp only: reci_term_grad_sum_zero [OF assms] sum.neutral_const)
  finally show ?thesis .
qed

text \<open>
  C10. With a gradient buffer supplied, the gradient contributions that one wave vector
  adds sum to zero over the atoms along each axis, and so do the contributions of the
  whole call of \<open>compute_ewald_reci\<close>.
\<close>

theorem reci_gradient_sums_to_zero:
  "\<forall>b\<in>{0, 1, 2}.
     (\<exists>gp'. fst (snd (reci_term pos natom charges gvecs fac1 fac2 j0 j1 j2 (e, Some gp, work))) = Some gp'
        \<and> (\<Sum>i = 0..natom - 1. gp' (3 * i + b) - gp (3 * i + b)) = 0)
   \<and> (\<exists>gp'. fst (snd (compute_ewald_reci pos natom charges gvecs volume alpha gmax (Some gp) work)) = Some gp'
        \<and> (\<Sum>i = 0..natom - 1. gp' (3 * i + b) - gp (3 * i + b)) = 0)"
proof (intro ballI conjI)
  fix b :: int
  assume b: "b \<in> {0, 1, 2}"
  show "\<exists>gp'. fst (snd (reci_term pos natom charges gvecs fac1 fac2 j0 j1 j2 (e, Some gp, work))) = Some gp'
        \<and> (\<Sum>i = 0..natom - 1. gp' (3 * i + b) - gp (3 * i + b)) = 0"
    by (simp add: reci_term_gpos reci_term_grad_sum_zero [OF b])
  show "\<exists>gp'. fst (snd (compute_ewald_reci pos natom charges gvecs volume alpha gmax (Some gp) work)) = Some gp'
        \<and> (\<Sum>i = 0..natom - 1. gp' (3 * i + b) - gp (3 * i + b)) = 0"
    by (simp only: conjunct2 [OF reci_closed_form])
       (simp add: reci_total_grad_sum_zero [OF b])
qed

lemma idx3_div_mod:
  fixes i :: int
  shows "(3 * i) div 3 = i" "(3 * i) mod 3 = 0" "(3 * i + 1) div 3 = i" "(3 * i + 1) mod 3 = 1"
    "(3 * i + 2) div 3 = i" "(3 * i + 2) mod 3 = 2"
  by presburger+

lemma kdot_translate:
  "kdot k (translate_pos pos t) i =
     kdot k pos i + (vec3_nth k 0 * vec3_nth t 0 + vec3_nth k 1 * vec3_nth t 1 + vec3_nth k 2 * vec3_nth t 2)"
  by (cases k; cases t) (simp add: kdot_def translate_pos_def idx3_div_mod vec3_nth_def algebra_simps)

lemma kdot_permute: "kdot k (permute_atoms p pos) i = kdot k pos (p i)"
  by (cases k) (simp add: kdot_def permute_atoms_def idx3_div_mod)

lemma structure_factor_translate:
  "cosfac_of k (translate_pos pos t) q n * cosfac_of k (translate_pos pos t) q n
     + sinfac_of k (translate_pos pos t) q n * sinfac_of k (translate_pos pos t) q n
   = cosfac_of k pos q n * cosfac_of k pos q n + sinfac_of k pos q n * sinfac_of k pos q n"
proof -
  define th where "th = vec3_nth k 0 * vec3_nth t 0 + vec3_nth k 1 * vec3_nth t 1 + vec3_nth k 2 * vec3_nth t 2"
  define C where "C = cosfac_of k pos q n"
  define S where "S = sinfac_of k pos q n"
  have c: "cosfac_of k (translate_pos pos t) q n = cos th * C - sin th * S"
    unfolding cosfac_of_def sinfac_of_def C_def S_def kdot_translate th_def [symmetric]
    by (simp add: cos_add sum_distrib_left sum_subtractf algebra_simps)
  have s: "sinfac_of k (translate_pos pos t) q n = sin th * C + cos th * S"
    unfolding cosfac_of_def sinfac_of_def C_def S_def kdot_translate th_def [symmetric]
    by (simp add: sin_add sum_distrib_left sum.distrib algebra_simps)
  have e: "sin th * sin th + cos th * cos th = 1"
    using sin_cos_squared_add [of th] by (simp add: power2_eq_square)
  have alg: "(a * C - b * S) * (a * C - b * S) + (b * C + a * S) * (b * C + a * S)
      = (b * b + a * a) * (C * C + S * S)" for a b :: real
    by (simp add: algebra_simps)
  have "(cos th * C - sin th * S) * (cos th * C - sin th * S)
        + (sin th * C + cos th * S) * (sin th * C + cos th * S)
      = (sin th * sin th + cos th * cos th) * (C * C + S * S)"
    by (rule alg)
  also have "\<dots> = C * C + S * S"
    by (simp only: e mult_1)
  finally show ?thesis
    by (simp only: c s C_def [symmetric] S_def [symmetric])
qed

lemma structure_factor_permute:
  assumes "bij_betw p {0..n - 1} {0..n - 1}"
  shows "cosfac_of k (permute_atoms p pos) (q \<circ> p) n = cosfac_of k pos q n"
    and "sinfac_of k (permute_atoms p pos) (q \<circ> p) n = sinfac_of k pos q n"
  unfolding cosfac_of_def sinfac_of_def kdot_permute comp_def
  by (rule sum.reindex_bij_betw [OF assms])+

lemma reci_term_energy_translate:
  "reci_term_energy (translate_pos pos t) n q gv f1 f2 j0 j1 j2 =
   reci_term_energy pos n q gv f1 f2 j0 j1 j2"
  by (simp only: reci_term_energy_def Let_def structure_factor_translate)

lemma reci_term_energy_permute:
  assumes "bij_betw p {0..n - 1} {0..n - 1}"
  shows "reci_term_energy (permute_atoms p pos) n (q \<circ> p) gv f1 f2 j0 j1 j2 =
   reci_term_energy pos n q gv f1 f2 j0 j1 j2"
  by (simp only: reci_term_energy_def Let_def structure_factor_permute [OF assms])

text \<open>
  C6. The energy returned by \<open>compute_ewald_reci\<close> is unchanged when one vector is added
  to every atomic position, and when positions and charges are relabelled by the same
  permutation of the atom indices.
\<close>

theorem reci_energy_invariance:
  "fst (compute_ewald_reci (translate_pos pos t) natom charges gvecs volume alpha gmax gpos work) =
     fst (compute_ewald_reci pos natom charges gvecs volume alpha gmax gpos work)
   \<and> (bij_betw p {0..natom - 1} {0..natom - 1} \<longrightarrow>
        fst (compute_ewald_reci (permute_atoms p pos) natom (charges \<circ> p) gvecs volume alpha gmax gpos work) =
          fst (compute_ewald_reci pos natom charges gvecs volume alpha gmax gpos work))"
proof (intro conjI impI)
  show "fst (compute_ewald_reci (translate_pos pos t) natom charges gvecs volume alpha gmax gpos work) =
     fst (compute_ewald_reci pos natom charges gvecs volume alpha gmax gpos work)"
    by (simp only: conjunct1 [OF reci_closed_form] reci_total_energy_def reci_term_energy_translate)
next
  assume b: "bij_betw p {0..natom - 1} {0..natom - 1}"
  show "fst (compute_ewald_reci (permute_atoms p pos) natom (charges \<circ> p) gvecs volume alpha gmax gpos work) =
          fst (compute_ewald_reci pos natom charges gvecs volume alpha gmax gpos work)"
    by (simp only: conjunct1 [OF reci_closed_form] reci_total_energy_def
        reci_term_energy_permute [OF b])
qed

theorem reci_energy_invariance_witness:
  "fst (compute_ewald_reci (translate_pos scn_pos (1, 2, 3)) 2 scn_charges scn_gvecs 1000 (3 / 10)
          scn_gmax None zero_buf) =
     fst (compute_ewald_reci scn_pos 2 scn_charges scn_gvecs 1000 (3 / 10) scn_gmax None zero_buf)
   \<and> fst (compute_ewald_reci (permute_atoms (\<lambda>i. 1 - i) scn_pos) 2 (scn_charges \<circ> (\<lambda>i. 1 - i))
          scn_gvecs 1000 (3 / 10) scn_gmax None zero_buf) =
     fst (compute_ewald_reci scn_pos 2 scn_charges scn_gvecs 1000 (3 / 10) scn_gmax None zero_buf)"
proof -
  have "bij_betw (\<lambda>i. 1 - i) {0..(1::int)} {0..1}"
    by (rule bij_betw_byWitness [where f' = "\<lambda>i. 1 - i"]) auto
  then have b: "bij_betw (\<lambda>i. 1 - i) {0..(2::int) - 1} {0..2 - 1}" by simp
  from reci_energy_invariance [of scn_pos "(1, 2, 3)" 2 scn_charges scn_gvecs 1000 "3 / 10" scn_gmax
      None zero_buf "\<lambda>i. 1 - i"] b
  show ?thesis by blast
qed

theorem reci_gradient_sums_to_zero_witness:
  "(\<exists>gp'. fst (snd (reci_term scn_pos 2 scn_charges scn_gvecs 1 1 1 0 0 (0, Some zero_buf, zero_buf))) = Some gp'
        \<and> (\<Sum>i = 0..2 - 1. gp' (3 * i + 0) - zero_buf (3 * i + 0)) = 0)
   \<and> (\<exists>gp'. fst (snd (compute_ewald_reci scn_pos 2 scn_charges scn_gvecs 1000 (3 / 10) scn_gmax
                        (Some zero_buf) zero_buf)) = Some gp'
        \<and> (\<Sum>i = 0..2 - 1. gp' (3 * i + 0) - zero_buf (3 * i + 0)) = 0)"
proof -
  have "(0::int) \<in> {0, 1, 2}" by simp
  from bspec [OF reci_gradient_sums_to_zero [of scn_pos 2 scn_charges scn_gvecs 1 1 1 0 0 0 zero_buf
        zero_buf 1000 "3 / 10" scn_gmax] this]
  show ?thesis .
qed

subsection \<open>Arithmetic with NaN\<close>

lemma nan_add_simps:
  "nan_add (Some a) (Some b) = Some (a + b)" "nan_add None y = None" "nan_add x None = None"
  by (simp_all add: nan_add_def split: option.splits)

lemma nan_sub_simps:
  "nan_sub (Some a) (Some b) = Some (a - b)" "nan_sub None y = None" "nan_sub x None = None"
  by (simp_all add: nan_sub_def split: option.splits)

lemma nan_mul_simps:
  "nan_mul (Some a) (Some b) = Some (a * b)" "nan_mul None y = None" "nan_mul x None = None"
  by (simp_all add: nan_mul_def split: option.splits)

lemma nan_neg_simps: "nan_neg (Some a) = Some (- a)" "nan_neg None = None"
  by (simp_all add: nan_neg_def)

lemmas nan_simps = nan_add_simps nan_sub_simps nan_mul_simps nan_neg_simps

lemma nan_sub_add_neg: "nan_sub x y = nan_add x (nan_neg y)"
  by (cases x; cases y) (simp_all add: nan_simps)

lemma nan_add_assoc: "nan_add (nan_add x y) z = nan_add x (nan_add y z)"
  by (cases x; cases y; cases z) (simp_all add: nan_simps)

lemma nan_add_zero: "nan_add x (Some 0) = x" "nan_sub x (Some 0) = x"
  by (cases x; simp add: nan_simps)+

lemma nan_sub_swap: "nan_sub (nan_sub e (Some t)) x = nan_sub (nan_sub e x) (Some t)"
  by (cases e; cases x) (simp_all add: nan_simps)

subsection \<open>The correction kernel as a sum over the scaling rows\<close>

lemma corr_step_energy_shift:
  "corr_step mic pos c q rv gv a row (nan_sub e (Some t), g, v) =
     (case corr_step mic pos c q rv gv a row (e, g, v) of (e', g', v') \<Rightarrow> (nan_sub e' (Some t), g', v'))"
  by (simp add: corr_step_def Let_def nan_sub_swap)

lemma corr_fold_energy_shift:
  "fold (corr_step mic pos c q rv gv a) rows (nan_sub e (Some t), g, v) =
     (case fold (corr_step mic pos c q rv gv a) rows (e, g, v) of
        (e', g', v') \<Rightarrow> (nan_sub e' (Some t), g', v'))"
proof (induction rows arbitrary: e g v)
  case Nil
  show ?case by simp
next
  case (Cons row rows)
  obtain e1 g1 v1 where s: "corr_step mic pos c q rv gv a row (e, g, v) = (e1, g1, v1)"
    by (cases "corr_step mic pos c q rv gv a row (e, g, v)") auto
  show ?case
    by (simp add: corr_step_energy_shift [of mic pos c q rv gv a row e t g v] s Cons.IH)
qed

text \<open>
  C4. The self term: a call of \<open>compute_ewald_corr\<close> with an empty scaling list
  returns exactly \<open>- \<alpha>/\<surd>\<pi> \<cdot> q_center\<^sup>2\<close> and leaves the gradient and virial
  buffers as they were; for any scaling list the result is that of the loop over the
  rows alone (started from energy 0 and the caller's buffers) with
  \<open>\<alpha>/\<surd>\<pi> \<cdot> q_center\<^sup>2\<close> subtracted once from the energy and the buffers untouched.
\<close>

theorem corr_self_term:
  "compute_ewald_corr mic pos c q rv gv a [] gpos vtens = (Some (- a / sqrt pi * (q c)\<^sup>2), gpos, vtens)
   \<and> compute_ewald_corr mic pos c q rv gv a scaling gpos vtens =
       (case fold (corr_step mic pos c q rv gv a) scaling (Some 0, gpos, vtens) of
          (e, g, v) \<Rightarrow> (nan_sub e (Some (a / sqrt pi * (q c)\<^sup>2)), g, v))"
proof
  show "compute_ewald_corr mic pos c q rv gv a [] gpos vtens = (Some (- a / sqrt pi * (q c)\<^sup>2), gpos, vtens)"
    by (simp add: compute_ewald_corr_def M_SQRT_PI_def power2_eq_square nan_simps)
  have "fold (corr_step mic pos c q rv gv a) scaling (nan_sub (Some 0) (Some (a / sqrt pi * q c * q c)), gpos, vtens) =
      (case fold (corr_step mic pos c q rv gv a) scaling (Some 0, gpos, vtens) of
         (e, g, v) \<Rightarrow> (nan_sub e (Some (a / sqrt pi * q c * q c)), g, v))"
    by (rule corr_fold_energy_shift)
  then show "compute_ewald_corr mic pos c q rv gv a scaling gpos vtens =
       (case fold (corr_step mic pos c q rv gv a) scaling (Some 0, gpos, vtens) of
          (e, g, v) \<Rightarrow> (nan_sub e (Some (a / sqrt pi * (q c)\<^sup>2)), g, v))"
    by (simp add: compute_ewald_corr_def M_SQRT_PI_def power2_eq_square mult.assoc)
qed

lemma corr_step_skip:
  "\<not> contributes c row \<Longrightarrow> corr_step mic pos c q rv gv a row st = st"
  by (cases st) (simp add: corr_step_def contributes_def)

lemma corr_fold_filter:
  "fold (corr_step mic pos c q rv gv a) (filter (\<lambda>row. row_i row < c) rows) st =
   fold (corr_step mic pos c q rv gv a) rows st"
  by (induction rows arbitrary: st) (simp_all add: corr_step_skip contributes_def)

lemma pair_dist_min_image:
  "pair_dist mic pos c o' rv gv = min_image_dist mic pos c o' rv gv"
  by (simp add: pair_dist_def pair_delta_def vec_len_def min_image_dist_def power2_eq_square
      split: prod.splits)

lemma pair_term_spec_eq:
  "nan_sub e (nan_mul (Some (pair_fac q c (row_i row) (row_scale row)))
       (pair_pot a (pair_dist mic pos c (row_i row) rv gv)))
   = nan_add e (pair_term_spec mic pos c q rv gv a row)"
proof (cases "min_image_dist mic pos c (row_i row) rv gv = 0")
  case True
  then show ?thesis
    by (simp add: pair_dist_min_image pair_pot_def pair_term_spec_def nan_simps)
next
  case False
  have "- (x * qo * qc * (t / d)) = - x * qc * qo * t / d" for x qo qc t d :: real
    by simp
  with False show ?thesis
    by (cases e)
       (simp_all add: pair_dist_min_image pair_pot_def pair_term_spec_def nan_simps pair_fac_def
          Let_def del: minus_diff_eq mult_minus_left)
qed

lemma corr_step_energy:
  "fst (corr_step mic pos c q rv gv a row (e, g, v)) =
     (if row_i row < c then nan_add e (pair_term_spec mic pos c q rv gv a row) else e)"
  using pair_term_spec_eq [of e q c row a mic pos rv gv]
  by (simp add: corr_step_def Let_def pair_dist_def)

lemma corr_fold_energy:
  "fst (fold (corr_step mic pos c q rv gv a) rows (e, g, v)) =
     nan_add e (nan_sum (map (pair_term_spec mic pos c q rv gv a) (filter (\<lambda>row. row_i row < c) rows)))"
proof (induction rows arbitrary: e g v)
  case Nil
  show ?case by (simp add: nan_sum_def nan_add_zero)
next
  case (Cons row rows)
  obtain e1 g1 v1 where s: "corr_step mic pos c q rv gv a row (e, g, v) = (e1, g1, v1)"
    by (cases "corr_step mic pos c q rv gv a row (e, g, v)") auto
  from corr_step_energy [of mic pos c q rv gv a row e g v] s
  have e1: "e1 = (if row_i row < c then nan_add e (pair_term_spec mic pos c q rv gv a row) else e)"
    by simp
  show ?case
    by (simp add: s Cons.IH e1 nan_sum_def nan_add_assoc)
qed

text \<open>
  C2. The energy returned by \<open>compute_ewald_corr\<close> is the self term plus the sum, over
  exactly the rows whose other index is strictly below the centre index, of
  \<open>-(1 - scale) \<cdot> q_center \<cdot> q_other \<cdot> erf(\<alpha> d)/d\<close>, \<open>d\<close> being the length of the minimum-image
  displacement between the two atoms; the rows with other index \<open>\<ge>\<close> centre index
  contribute nothing: dropping them from the list changes neither the energy nor the
  gradient nor the virial buffer.
\<close>

theorem corr_pairwise_energy:
  "fst (compute_ewald_corr mic pos c q rv gv a scaling gpos vtens) =
     nan_add (Some (- (a / sqrt pi * (q c)\<^sup>2)))
       (nan_sum (map (pair_term_spec mic pos c q rv gv a) (filter (\<lambda>row. row_i row < c) scaling)))
   \<and> compute_ewald_corr mic pos c q rv gv a scaling gpos vtens =
       compute_ewald_corr mic pos c q rv gv a (filter (\<lambda>row. row_i row < c) scaling) gpos vtens"
  by (simp add: compute_ewald_corr_def corr_fold_energy corr_fold_filter M_SQRT_PI_def
      power2_eq_square nan_simps mult.assoc)

subsection \<open>One contributing pair: gradient and virial\<close>

lemma idx3_neq:
  fixes i j :: int
  shows "3 * i \<noteq> 3 * j + 1" "3 * i \<noteq> 3 * j + 2" "3 * i + 1 \<noteq> 3 * j" "3 * i + 2 \<noteq> 3 * j"
    "3 * i + 1 \<noteq> 3 * j + 2" "3 * i + 2 \<noteq> 3 * j + 1"
  by presburger+

lemma idx3_lt:
  fixes i j :: int
  assumes "j < i"
  shows "3 * i \<noteq> 3 * j" "3 * i + 1 \<noteq> 3 * j + 1" "3 * i + 2 \<noteq> 3 * j + 2"
    "3 * j \<noteq> 3 * i" "3 * j + 1 \<noteq> 3 * i + 1" "3 * j + 2 \<noteq> 3 * i + 2"
  using assms by simp_all

lemma gpos_pair_update_center:
  assumes "o' < c" and "b \<in> {0, 1, 2}"
  shows "gpos_pair_update c o' delta g gp (3 * c + b) =
           nan_add (gp (3 * c + b)) (nan_mul (Some (vec3_nth delta b)) g)"
  using assms(2) idx3_neq [of c o'] idx3_neq [of o' c] idx3_neq [of c c] idx3_lt [OF assms(1)]
  by (cases delta) (auto simp add: gpos_pair_update_def vec3_nth_def Let_def)

lemma gpos_pair_update_other:
  assumes "o' < c" and "b \<in> {0, 1, 2}"
  shows "gpos_pair_update c o' delta g gp (3 * o' + b) =
           nan_sub (gp (3 * o' + b)) (nan_mul (Some (vec3_nth delta b)) g)"
  using assms(2) idx3_neq [of c o'] idx3_neq [of o' c] idx3_neq [of o' o'] idx3_lt [OF assms(1)]
  by (cases delta) (auto simp add: gpos_pair_update_def vec3_nth_def Let_def)

lemma corr_step_gpos:
  assumes "contributes c row"
  shows "fst (snd (corr_step mic pos c q rv gv a row (e, Some gp, vtens))) =
     Some (gpos_pair_update c (row_i row) (pair_delta mic pos c (row_i row) rv gv)
            (pair_g a (pair_dist mic pos c (row_i row) rv gv)
               (pair_fac q c (row_i row) (row_scale row))) gp)"
  using assms by (simp add: corr_step_def contributes_def Let_def pair_dist_def)

text \<open>
  C5. Newton's third law: for a row that contributes, with a gradient buffer supplied,
  the vector added to the centre atom's gradient entry is \<open>\<Delta> \<cdot> g\<close> and the vector added to
  the other atom's entry is its exact negation.
\<close>

theorem corr_newton_third:
  assumes "contributes c row"
  shows "\<exists>gp'. fst (snd (corr_step mic pos c q rv gv a row (e, Some gp, vtens))) = Some gp'
     \<and> (\<forall>b\<in>{0, 1, 2}.
          gp' (3 * c + b) =
            nan_add (gp (3 * c + b))
              (nan_mul (Some (vec3_nth (pair_delta mic pos c (row_i row) rv gv) b))
                 (pair_g a (pair_dist mic pos c (row_i row) rv gv) (pair_fac q c (row_i row) (row_scale row))))
        \<and> gp' (3 * row_i row + b) =
            nan_add (gp (3 * row_i row + b))
              (nan_neg (nan_mul (Some (vec3_nth (pair_delta mic pos c (row_i row) rv gv) b))
                 (pair_g a (pair_dist mic pos c (row_i row) rv gv) (pair_fac q c (row_i row) (row_scale row))))))"
proof -
  from assms have lt: "row_i row < c" by (simp add: contributes_def)
  let ?g = "pair_g a (pair_dist mic pos c (row_i row) rv gv) (pair_fac q c (row_i row) (row_scale row))"
  let ?gp' = "gpos_pair_update c (row_i row) (pair_delta mic pos c (row_i row) rv gv) ?g gp"
  show ?thesis
  proof (rule exI [of _ ?gp'], intro conjI ballI)
    show "fst (snd (corr_step mic pos c q rv gv a row (e, Some gp, vtens))) = Some ?gp'"
      by (rule corr_step_gpos [OF assms])
  next
    fix b :: int
    assume b: "b \<in> {0, 1, 2}"
    show "?gp' (3 * c + b) = nan_add (gp (3 * c + b))
              (nan_mul (Some (vec3_nth (pair_delta mic pos c (row_i row) rv gv) b)) ?g)"
      by (rule gpos_pair_update_center [OF lt b])
    show "?gp' (3 * row_i row + b) = nan_add (gp (3 * row_i row + b))
              (nan_neg (nan_mul (Some (vec3_nth (pair_delta mic pos c (row_i row) rv gv) b)) ?g))"
      by (simp only: gpos_pair_update_other [OF lt b] nan_sub_add_neg)
  qed
qed

theorem corr_newton_third_witness:
  "\<exists>gp'. fst (snd (corr_step mic_unchanged scn_pos 1 scn_charges scn_rvecs scn_gvecs (3 / 10)
                      \<lparr>row_i = 0, row_scale = 0\<rparr> (Some 0, Some zero_dbuf, None))) = Some gp'
     \<and> (\<forall>b\<in>{0, 1, 2}.
          gp' (3 * 1 + b) =
            nan_add (zero_dbuf (3 * 1 + b))
              (nan_mul (Some (vec3_nth (pair_delta mic_unchanged scn_pos 1 0 scn_rvecs scn_gvecs) b))
                 (pair_g (3 / 10) (pair_dist mic_unchanged scn_pos 1 0 scn_rvecs scn_gvecs)
                    (pair_fac scn_charges 1 0 0)))
        \<and> gp' (3 * 0 + b) =
            nan_add (zero_dbuf (3 * 0 + b))
              (nan_neg (nan_mul (Some (vec3_nth (pair_delta mic_unchanged scn_pos 1 0 scn_rvecs scn_gvecs) b))
                 (pair_g (3 / 10) (pair_dist mic_unchanged scn_pos 1 0 scn_rvecs scn_gvecs)
                    (pair_fac scn_charges 1 0 0)))))"
proof -
  have h: "contributes 1 \<lparr>row_i = 0, row_scale = 0\<rparr>"
    by (simp add: contributes_def)
  from corr_newton_third [OF h, of mic_unchanged scn_pos scn_charges scn_rvecs scn_gvecs "3 / 10"
      "Some 0" zero_dbuf None]
  show ?thesis by simp
qed

lemma vtens_pair_update_entry:
  assumes "b \<in> {0, 1, 2}" and "b' \<in> {0, 1, 2}"
  shows "vtens_pair_update delta g vt (3 * b + b') =
           nan_add (vt (3 * b + b')) (nan_mul (Some (vec3_nth delta b * vec3_nth delta b')) g)"
  using assms
  by (cases delta)
     (elim insertE emptyE; simp add: vtens_pair_update_def vec3_nth_def Let_def mult.commute)

lemma vtens_pair_update_symmetric:
  "vtens_symmetric vt \<Longrightarrow> vtens_symmetric (vtens_pair_update delta g vt)"
  by (cases delta) (simp add: vtens_symmetric_def vtens_pair_update_def Let_def mult.commute)

lemma corr_step_vtens:
  assumes "contributes c row"
  shows "snd (snd (corr_step mic pos c q rv gv a row (e, gpos, Some vt))) =
     Some (vtens_pair_update (pair_delta mic pos c (row_i row) rv gv)
            (pair_g a (pair_dist mic pos c (row_i row) rv gv)
               (pair_fac q c (row_i row) (row_scale row))) vt)"
  using assms by (simp add: corr_step_def contributes_def Let_def pair_dist_def)

lemma corr_step_vtens_symmetric:
  "vtens_symmetric vt \<Longrightarrow>
     \<exists>vt'. snd (snd (corr_step mic pos c q rv gv a row (e, gpos, Some vt))) = Some vt'
        \<and> vtens_symmetric vt'"
  by (cases "contributes c row")
     (simp_all add: corr_step_vtens corr_step_skip vtens_pair_update_symmetric)

lemma corr_fold_vtens_symmetric:
  "vtens_symmetric vt \<Longrightarrow>
     \<exists>vt'. snd (snd (fold (corr_step mic pos c q rv gv a) rows (e, gpos, Some vt))) = Some vt'
        \<and> vtens_symmetric vt'"
proof (induction rows arbitrary: e gpos vt)
  case Nil
  then show ?case by simp
next
  case (Cons row rows)
  obtain e1 g1 v1 where s: "corr_step mic pos c q rv gv a row (e, gpos, Some vt) = (e1, g1, v1)"
    by (cases "corr_step mic pos c q rv gv a row (e, gpos, Some vt)") auto
  from corr_step_vtens_symmetric [OF Cons.prems, of mic pos c q rv gv a row e gpos] s
  obtain vt1 where v1: "v1 = Some vt1" and sym: "vtens_symmetric vt1" by auto
  from Cons.IH [OF sym] show ?case by (simp add: s v1)
qed

text \<open>
  C9. For a row that contributes, with a virial buffer supplied, the amount added to
  entry \<open>(b, b')\<close> of the tensor is \<open>\<Delta>\<^sub>b \<cdot> \<Delta>\<^sub>b\<^sub>' \<cdot> g\<close> and equals the amount added to entry
  \<open>(b', b)\<close>; hence a tensor that is symmetric before a call of \<open>compute_ewald_corr\<close>
  is symmetric after it.
\<close>

theorem corr_virial_symmetric:
  "(contributes c row \<longrightarrow>
      (\<exists>vt'. snd (snd (corr_step mic pos c q rv gv a row (e, gpos, Some vt))) = Some vt'
         \<and> (\<forall>b\<in>{0, 1, 2}. \<forall>b'\<in>{0, 1, 2}.
              vt' (3 * b + b') =
                nan_add (vt (3 * b + b'))
                  (nan_mul (Some (vec3_nth (pair_delta mic pos c (row_i row) rv gv) b
                                  * vec3_nth (pair_delta mic pos c (row_i row) rv gv) b'))
                     (pair_g a (pair_dist mic pos c (row_i row) rv gv) (pair_fac q c (row_i row) (row_scale row))))
            \<and> nan_mul (Some (vec3_nth (pair_delta mic pos c (row_i row) rv gv) b
                                  * vec3_nth (pair_delta mic pos c (row_i row) rv gv) b'))
                     (pair_g a (pair_dist mic pos c (row_i row) rv gv) (pair_fac q c (row_i row) (row_scale row)))
              = nan_mul (Some (vec3_nth (pair_delta mic pos c (row_i row) rv gv) b'
                                  * vec3_nth (pair_delta mic pos c (row_i row) rv gv) b))
                     (pair_g a (pair_dist mic pos c (row_i row) rv gv) (pair_fac q c (row_i row) (row_scale row))))))
   \<and> (vtens_symmetric vt \<longrightarrow>
      (\<exists>vt'. snd (snd (compute_ewald_corr mic pos c q rv gv a scaling gpos (Some vt))) = Some vt'
         \<and> vtens_symmetric vt'))"
proof (intro conjI impI)
  assume con: "contributes c row"
  let ?d = "pair_delta mic pos c (row_i row) rv gv"
  let ?g = "pair_g a (pair_dist mic pos c (row_i row) rv gv) (pair_fac q c (row_i row) (row_scale row))"
  show "\<exists>vt'. snd (snd (corr_step mic pos c q rv gv a row (e, gpos, Some vt))) = Some vt'
         \<and> (\<forall>b\<in>{0, 1, 2}. \<forall>b'\<in>{0, 1, 2}.
              vt' (3 * b + b') =
                nan_add (vt (3 * b + b')) (nan_mul (Some (vec3_nth ?d b * vec3_nth ?d b')) ?g)
            \<and> nan_mul (Some (vec3_nth ?d b * vec3_nth ?d b')) ?g
              = nan_mul (Some (vec3_nth ?d b' * vec3_nth ?d b)) ?g)"
  proof (rule exI [of _ "vtens_pair_update ?d ?g vt"], intro conjI ballI)
    show "snd (snd (corr_step mic pos c q rv gv a row (e, gpos, Some vt))) = Some (vtens_pair_update ?d ?g vt)"
      by (rule corr_step_vtens [OF con])
    fix b b' :: int
    assume b: "b \<in> {0, 1, 2}" and b': "b' \<in> {0, 1, 2}"
    show "vtens_pair_update ?d ?g vt (3 * b + b') =
            nan_add (vt (3 * b + b')) (nan_mul (Some (vec3_nth ?d b * vec3_nth ?d b')) ?g)"
      by (rule vtens_pair_update_entry [OF b b'])
    show "nan_mul (Some (vec3_nth ?d b * vec3_nth ?d b')) ?g
              = nan_mul (Some (vec3_nth ?d b' * vec3_nth ?d b)) ?g"
      by (simp only: mult.commute)
  qed
next
  assume "vtens_symmetric vt"
  then show "\<exists>vt'. snd (snd (compute_ewald_corr mic pos c q rv gv a scaling gpos (Some vt))) = Some vt'
         \<and> vtens_symmetric vt'"
    unfolding compute_ewald_corr_def Let_def by (rule corr_fold_vtens_symmetric)
qed

theorem corr_virial_symmetric_witness:
  "(\<exists>vt'. snd (snd (corr_step mic_unchanged scn_pos 1 scn_charges scn_rvecs scn_gvecs (3 / 10)
                      \<lparr>row_i = 0, row_scale = 0\<rparr> (Some 0, None, Some zero_dbuf))) = Some vt'
      \<and> vt' (3 * 0 + 1) =
          nan_add (zero_dbuf (3 * 0 + 1))
            (nan_mul (Some (vec3_nth (pair_delta mic_unchanged scn_pos 1 0 scn_rvecs scn_gvecs) 0
                            * vec3_nth (pair_delta mic_unchanged scn_pos 1 0 scn_rvecs scn_gvecs) 1))
               (pair_g (3 / 10) (pair_dist mic_unchanged scn_pos 1 0 scn_rvecs scn_gvecs)
                  (pair_fac scn_charges 1 0 0))))
   \<and> (\<exists>vt'. snd (snd (compute_ewald_corr mic_unchanged scn_pos 1 scn_charges scn_rvecs scn_gvecs (3 / 10)
                      [\<lparr>row_i = 0, row_scale = 0\<rparr>] None (Some zero_dbuf))) = Some vt'
      \<and> vtens_symmetric vt')"
proof -
  have h: "contributes 1 \<lparr>row_i = 0, row_scale = 0\<rparr>"
    by (simp add: contributes_def)
  have s: "vtens_symmetric zero_dbuf"
    by (simp add: vtens_symmetric_def zero_dbuf_def)
  note t = corr_virial_symmetric [of 1 "\<lparr>row_i = 0, row_scale = 0\<rparr>" mic_unchanged scn_pos scn_charges
      scn_rvecs scn_gvecs "3 / 10" "Some 0" None zero_dbuf "[\<lparr>row_i = 0, row_scale = 0\<rparr>]"]
  from mp [OF conjunct1 [OF t] h] obtain vt1 where
    a: "snd (snd (corr_step mic_unchanged scn_pos 1 scn_charges scn_rvecs scn_gvecs (3 / 10)
                      \<lparr>row_i = 0, row_scale = 0\<rparr> (Some 0, None, Some zero_dbuf))) = Some vt1"
    and b: "\<forall>b\<in>{0, 1, 2}. \<forall>b'\<in>{0, 1, 2}.
        vt1 (3 * b + b') =
          nan_add (zero_dbuf (3 * b + b'))
            (nan_mul (Some (vec3_nth (pair_delta mic_unchanged scn_pos 1 0 scn_rvecs scn_gvecs) b
                            * vec3_nth (pair_delta mic_unchanged scn_pos 1 0 scn_rvecs scn_gvecs) b'))
               (pair_g (3 / 10) (pair_dist mic_unchanged scn_pos 1 0 scn_rvecs scn_gvecs)
                  (pair_fac scn_charges 1 0 0)))"
    by auto
  from b have "vt1 (3 * 0 + 1) =
          nan_add (zero_dbuf (3 * 0 + 1))
            (nan_mul (Some (vec3_nth (pair_delta mic_unchanged scn_pos 1 0 scn_rvecs scn_gvecs) 0
                            * vec3_nth (pair_delta mic_unchanged scn_pos 1 0 scn_rvecs scn_gvecs) 1))
               (pair_g (3 / 10) (pair_dist mic_unchanged scn_pos 1 0 scn_rvecs scn_gvecs)
                  (pair_fac scn_charges 1 0 0)))"
    by blast
  with a mp [OF conjunct2 [OF t] s] show ?thesis by blast
qed

subsection \<open>Distance zero and scale one\<close>

lemma pair_pot_nonzero: "d \<noteq> 0 \<Longrightarrow> pair_pot a d = Some (erf (a * d) / d)"
  by (simp add: pair_pot_def Let_def)

lemma pair_g_nonzero:
  "d \<noteq> 0 \<Longrightarrow> pair_g a d fac =
     Some (- fac * (M_TWO_DIV_SQRT_PI * a * exp (- (a * d) * (a * d)) - erf (a * d) / d) / d / d)"
  by (simp add: pair_g_def pair_pot_def Let_def)

lemma pair_zero_distance: "pair_pot a 0 = None" "pair_g a 0 fac = None"
  by (simp_all add: pair_g_def pair_pot_def Let_def)

lemma gpos_pair_update_nan:
  "gpos_pair_update c o' delta None gp =
     gp(3 * c := None, 3 * c + 1 := None, 3 * c + 2 := None,
        3 * o' := None, 3 * o' + 1 := None, 3 * o' + 2 := None)"
  unfolding gpos_pair_update_def nan_mul_simps nan_add_simps nan_sub_simps
  by (cases delta) (simp only: Let_def prod.case)

lemma vtens_pair_update_nan:
  "vtens_pair_update delta None vt =
     vt(0 := None, 1 := None, 2 := None, 3 := None, 4 := None, 5 := None,
        6 := None, 7 := None, 8 := None)"
  unfolding vtens_pair_update_def nan_mul_simps nan_add_simps
  by (cases delta) (simp only: Let_def prod.case)

lemma corr_step_zero_distance:
  assumes "row_i row < c" and "min_image_dist mic pos c (row_i row) rv gv = 0"
  shows "corr_step mic pos c q rv gv a row (e, gpos, vtens) =
     (None,
      map_option (\<lambda>gp. gp(3 * c := None, 3 * c + 1 := None, 3 * c + 2 := None,
                  3 * row_i row := None, 3 * row_i row + 1 := None, 3 * row_i row + 2 := None)) gpos,
      map_option (\<lambda>vt. vt(0 := None, 1 := None, 2 := None, 3 := None, 4 := None, 5 := None,
                  6 := None, 7 := None, 8 := None)) vtens)"
proof -
  from assms(2) have z: "vec_len (pair_delta mic pos c (row_i row) rv gv) = 0"
    by (simp add: pair_dist_min_image [symmetric] pair_dist_def)
  show ?thesis
    using assms(1)
    by (simp add: corr_step_def Let_def z pair_zero_distance nan_simps gpos_pair_update_nan
        vtens_pair_update_nan cong: option.map_cong)
qed

lemma scn_coincident_dist: "min_image_dist mic_unchanged scn_coincident 1 0 rv gv = 0"
  by (simp add: min_image_dist_def mic_unchanged_def scn_coincident_def)

lemma gpos_pair_update_zero: "gpos_pair_update c o' delta (Some 0) gp = gp"
  unfolding gpos_pair_update_def nan_mul_simps mult_zero_right nan_add_zero
  by (cases delta) (simp only: Let_def prod.case fun_upd_triv)

lemma vtens_pair_update_zero: "vtens_pair_update delta (Some 0) vt = vt"
  unfolding vtens_pair_update_def nan_mul_simps mult_zero_right nan_add_zero
  by (cases delta) (simp only: Let_def prod.case fun_upd_triv)

lemma corr_step_scale_one:
  assumes "row_scale row = 1"
    and "row_i row < c \<longrightarrow> min_image_dist mic pos c (row_i row) rv gv \<noteq> 0"
  shows "corr_step mic pos c q rv gv a row st = st"
proof (cases "row_i row < c")
  case False
  then show ?thesis by (simp add: corr_step_skip contributes_def)
next
  case True
  with assms have nz: "vec_len (pair_delta mic pos c (row_i row) rv gv) \<noteq> 0"
    by (simp add: pair_dist_min_image [symmetric] pair_dist_def)
  obtain e g v where st: "st = (e, g, v)" by (cases st) auto
  show ?thesis
    using True assms(1)
    by (simp add: st corr_step_def Let_def pair_fac_def pair_g_nonzero [OF nz] pair_pot_nonzero [OF nz]
        gpos_pair_update_zero vtens_pair_update_zero option.map_ident nan_simps nan_add_zero
        cong: option.map_cong)
qed

text \<open>
  C7, as stated, fails: with both atoms at the origin the listed pair has distance zero;
  with scale 1 the call then returns NaN instead of the self term and leaves NaN in
  the six gradient entries of the pair and in the nine virial entries.
\<close>

theorem corr_scale_one_zero_distance:
  "row_scale \<lparr>row_i = 0, row_scale = 1\<rparr> = 1
   \<and> compute_ewald_corr mic_unchanged scn_coincident 1 scn_charges scn_rvecs scn_gvecs (3 / 10)
       [\<lparr>row_i = 0, row_scale = 1\<rparr>] (Some zero_dbuf) (Some zero_dbuf)
     = (None,
        Some (zero_dbuf(3 := None, 4 := None, 5 := None, 0 := None, 1 := None, 2 := None)),
        Some (zero_dbuf(0 := None, 1 := None, 2 := None, 3 := None, 4 := None, 5 := None,
                6 := None, 7 := None, 8 := None)))
   \<and> compute_ewald_corr mic_unchanged scn_coincident 1 scn_charges scn_rvecs scn_gvecs (3 / 10)
       [\<lparr>row_i = 0, row_scale = 1\<rparr>] (Some zero_dbuf) (Some zero_dbuf)
     \<noteq> (Some (- (3 / 10) / sqrt pi * (scn_charges 1)\<^sup>2), Some zero_dbuf, Some zero_dbuf)"
proof -
  have lt: "row_i \<lparr>row_i = 0, row_scale = 1\<rparr> < (1::int)" by simp
  have z: "min_image_dist mic_unchanged scn_coincident 1 (row_i \<lparr>row_i = 0, row_scale = 1\<rparr>)
      scn_rvecs scn_gvecs = 0"
    by (simp add: scn_coincident_dist)
  note st = corr_step_zero_distance [OF lt z, of scn_charges "3 / 10"]
  have r: "compute_ewald_corr mic_unchanged scn_coincident 1 scn_charges scn_rvecs scn_gvecs (3 / 10)
       [\<lparr>row_i = 0, row_scale = 1\<rparr>] (Some zero_dbuf) (Some zero_dbuf)
     = (None,
        Some (zero_dbuf(3 := None, 4 := None, 5 := None, 0 := None, 1 := None, 2 := None)),
        Some (zero_dbuf(0 := None, 1 := None, 2 := None, 3 := None, 4 := None, 5 := None,
                6 := None, 7 := None, 8 := None)))"
    by (simp add: compute_ewald_corr_def st)
  show ?thesis
    by (simp only: r) simp
qed

text \<open>
  C7, amended. When every row of the scaling list has scale 1 and every row that
  contributes joins two atoms at a minimum-image distance other than zero,
  \<open>compute_ewald_corr\<close> returns the self term alone and leaves every gradient component
  and every virial entry as it was.
\<close>

theorem corr_scale_one:
  assumes "\<forall>row\<in>set scaling. row_scale row = 1
      \<and> (row_i row < c \<longrightarrow> min_image_dist mic pos c (row_i row) rv gv \<noteq> 0)"
  shows "compute_ewald_corr mic pos c q rv gv a scaling gpos vtens
           = (Some (- a / sqrt pi * (q c)\<^sup>2), gpos, vtens)"
proof -
  have "fold (corr_step mic pos c q rv gv a) scaling st = st" for st
    using assms by (induction scaling arbitrary: st) (simp_all add: corr_step_scale_one)
  then show ?thesis
    by (simp add: compute_ewald_corr_def M_SQRT_PI_def power2_eq_square nan_simps mult.assoc)
qed

lemma scn_min_image: "min_image_dist mic_unchanged scn_pos 1 0 rv gv = 2"
  by (simp add: min_image_dist_def mic_unchanged_def scn_pos_def)

theorem corr_scale_one_witness:
  "compute_ewald_corr mic_unchanged scn_pos 1 scn_charges scn_rvecs scn_gvecs (3 / 10)
     [\<lparr>row_i = 0, row_scale = 1\<rparr>] (Some zero_dbuf) (Some zero_dbuf)
   = (Some (- (3 / 10) / sqrt pi * (scn_charges 1)\<^sup>2), Some zero_dbuf, Some zero_dbuf)"
  using corr_scale_one [of "[\<lparr>row_i = 0, row_scale = 1\<rparr>]" 1 mic_unchanged scn_pos scn_rvecs scn_gvecs
      scn_charges "3 / 10" "Some zero_dbuf" "Some zero_dbuf"]
  by (simp add: scn_min_image)

subsection \<open>The gradient of the reciprocal energy\<close>

lemma kdot_upd:
  "kdot k (pos(m := t)) i =
     kdot k pos i + (if i = m div 3 then vec3_nth k (m mod 3) else 0) * (t - pos m)"
proof -
  obtain k0 k1 k2 where k: "k = (k0, k1, k2)" by (cases k) auto
  have "m = 3 * i \<or> m = 3 * i + 1 \<or> m = 3 * i + 2
      \<or> (m div 3 \<noteq> i \<and> m \<noteq> 3 * i \<and> m \<noteq> 3 * i + 1 \<and> m \<noteq> 3 * i + 2)"
    by presburger
  then consider (c0) "m = 3 * i" | (c1) "m = 3 * i + 1" | (c2) "m = 3 * i + 2"
    | (other) "m div 3 \<noteq> i" "m \<noteq> 3 * i" "m \<noteq> 3 * i + 1" "m \<noteq> 3 * i + 2"
    by blast
  then show ?thesis
  proof cases
    case c0
    then show ?thesis by (simp add: kdot_def k vec3_nth_def idx3_div_mod algebra_simps)
  next
    case c1
    then show ?thesis by (simp add: kdot_def k vec3_nth_def idx3_div_mod algebra_simps)
  next
    case c2
    then show ?thesis by (simp add: kdot_def k vec3_nth_def idx3_div_mod algebra_simps)
  next
    case other
    then have "i \<noteq> m div 3" by simp
    with other show ?thesis by (simp add: kdot_def k)
  qed
qed

lemma DERIV_cosfac:
  "((\<lambda>t. cosfac_of k (pos(m := t)) q n) has_real_derivative
      (if 0 \<le> m div 3 \<and> m div 3 \<le> n - 1
       then - (vec3_nth k (m mod 3) * (q (m div 3) * sin (kdot k pos (m div 3)))) else 0))
     (at (pos m))"
proof -
  define dl where "dl = (\<lambda>i. if i = m div 3 then vec3_nth k (m mod 3) else 0)"
  have "((\<lambda>t. \<Sum>i = 0..n - 1. q i * cos (kdot k pos i + dl i * (t - pos m))) has_real_derivative
      (\<Sum>i = 0..n - 1. q i * (- sin (kdot k pos i + dl i * (pos m - pos m)) * dl i))) (at (pos m))"
    by (rule DERIV_sum) (auto intro!: derivative_eq_intros)
  moreover have "(\<Sum>i = 0..n - 1. q i * (- sin (kdot k pos i + dl i * (pos m - pos m)) * dl i)) =
      (\<Sum>i = 0..n - 1. if i = m div 3
          then - (vec3_nth k (m mod 3) * (q (m div 3) * sin (kdot k pos (m div 3)))) else 0)"
    by (rule sum.cong [OF refl]) (simp add: dl_def)
  ultimately have "((\<lambda>t. \<Sum>i = 0..n - 1. q i * cos (kdot k pos i + dl i * (t - pos m)))
      has_real_derivative (if m div 3 \<in> {0..n - 1} then D else 0)) (at (pos m))"
    if "D = - (vec3_nth k (m mod 3) * (q (m div 3) * sin (kdot k pos (m div 3))))" for D
    unfolding that by (simp only: sum.delta finite_atLeastAtMost_int)
  moreover have "(\<lambda>t. cosfac_of k (pos(m := t)) q n) =
      (\<lambda>t. \<Sum>i = 0..n - 1. q i * cos (kdot k pos i + dl i * (t - pos m)))"
    by (simp add: cosfac_of_def kdot_upd dl_def)
  ultimately show ?thesis by simp
qed

lemma DERIV_sinfac:
  "((\<lambda>t. sinfac_of k (pos(m := t)) q n) has_real_derivative
      (if 0 \<le> m div 3 \<and> m div 3 \<le> n - 1
       then vec3_nth k (m mod 3) * (q (m div 3) * cos (kdot k pos (m div 3))) else 0))
     (at (pos m))"
proof -
  define dl where "dl = (\<lambda>i. if i = m div 3 then vec3_nth k (m mod 3) else 0)"
  have "((\<lambda>t. \<Sum>i = 0..n - 1. q i * sin (kdot k pos i + dl i * (t - pos m))) has_real_derivative
      (\<Sum>i = 0..n - 1. q i * (cos (kdot k pos i + dl i * (pos m - pos m)) * dl i))) (at (pos m))"
    by (rule DERIV_sum) (auto intro!: derivative_eq_intros)
  moreover have "(\<Sum>i = 0..n - 1. q i * (cos (kdot k pos i + dl i * (pos m - pos m)) * dl i)) =
      (\<Sum>i = 0..n - 1. if i = m div 3
          then vec3_nth k (m mod 3) * (q (m div 3) * cos (kdot k pos (m div 3))) else 0)"
    by (rule sum.cong [OF refl]) (simp add: dl_def)
  ultimately have "((\<lambda>t. \<Sum>i = 0..n - 1. q i * sin (kdot k pos i + dl i * (t - pos m)))
      has_real_derivative (if m div 3 \<in> {0..n - 1} then D else 0)) (at (pos m))"
    if "D = vec3_nth k (m mod 3) * (q (m div 3) * cos (kdot k pos (m div 3)))" for D
    unfolding that by (simp only: sum.delta finite_atLeastAtMost_int)
  moreover have "(\<lambda>t. sinfac_of k (pos(m := t)) q n) =
      (\<lambda>t. \<Sum>i = 0..n - 1. q i * sin (kdot k pos i + dl i * (t - pos m)))"
    by (simp add: sinfac_of_def kdot_upd dl_def)
  ultimately show ?thesis by simp
qed

lemma DERIV_reci_term_energy:
  "((\<lambda>t. reci_term_energy (pos(m := t)) n q gv f1 f2 j0 j1 j2) has_real_derivative
      reci_term_grad pos n q gv f1 f2 j0 j1 j2 m) (at (pos m))"
proof (cases "zero_triple j0 j1 j2")
  case True
  then show ?thesis by (simp add: reci_term_energy_def reci_term_grad_def)
next
  case False
  let ?k = "kvec gv j0 j1 j2"
  let ?c = "reci_coef f1 f2 ?k"
  let ?dc = "if 0 \<le> m div 3 \<and> m div 3 \<le> n - 1
       then - (vec3_nth ?k (m mod 3) * (q (m div 3) * sin (kdot ?k pos (m div 3)))) else 0"
  let ?ds = "if 0 \<le> m div 3 \<and> m div 3 \<le> n - 1
       then vec3_nth ?k (m mod 3) * (q (m div 3) * cos (kdot ?k pos (m div 3))) else 0"
  let ?C = "\<lambda>t. cosfac_of ?k (pos(m := t)) q n" and ?S = "\<lambda>t. sinfac_of ?k (pos(m := t)) q n"
  have "((\<lambda>t. ?c * (?C t * ?C t + ?S t * ?S t)) has_real_derivative
      ?c * ((?C (pos m) * ?dc + ?dc * ?C (pos m)) + (?S (pos m) * ?ds + ?ds * ?S (pos m)))) (at (pos m))"
    by (intro DERIV_cmult DERIV_add DERIV_mult' DERIV_cosfac DERIV_sinfac)
  moreover have "?c * ((?C (pos m) * ?dc + ?dc * ?C (pos m)) + (?S (pos m) * ?ds + ?ds * ?S (pos m)))
      = reci_term_grad pos n q gv f1 f2 j0 j1 j2 m"
    using False by (simp add: reci_term_grad_def atom_grad_def Let_def algebra_simps)
  ultimately show ?thesis
    using False by (simp add: reci_term_energy_def Let_def)
qed

lemma DERIV_reci_total_energy:
  "((\<lambda>t. reci_total_energy (pos(m := t)) n q gv f1 f2 gmax) has_real_derivative
      reci_total_grad pos n q gv f1 f2 gmax m) (at (pos m))"
  unfolding reci_total_energy_def reci_total_grad_def
  by (intro DERIV_sum DERIV_reci_term_energy)

lemma reci_gradient_derivative:
  "\<exists>gp'. fst (snd (compute_ewald_reci pos natom charges gvecs volume alpha gmax (Some gp) work)) = Some gp'
     \<and> ((\<lambda>t. fst (compute_ewald_reci (pos(m := t)) natom charges gvecs volume alpha gmax (Some gp) work))
          has_real_derivative gp' m - gp m) (at (pos m))"
  by (simp only: conjunct1 [OF reci_closed_form] conjunct2 [OF reci_closed_form])
     (simp add: DERIV_reci_total_energy)

subsection \<open>The correction kernel at nonzero distances\<close>

lemma pair_delta_raw:
  "pair_delta mic pos c o' rv gv = mic (raw_delta pos c o') rv gv 3"
  by (simp add: pair_delta_def raw_delta_def)

lemma nan_sub_Some: "nan_sub x (Some y) = nan_add x (Some (- y))"
  by (cases x) (simp_all add: nan_simps)

lemma nan_add_add: "nan_add (nan_add x (Some a)) (Some b) = nan_add x (Some (a + b))"
  by (cases x) (simp_all add: nan_simps)

lemma gpos_pair_update_eq:
  assumes "o' < c"
  shows "gpos_pair_update c o' delta (Some g) gp = (\<lambda>m. nan_add (gp m) (Some (pair_grad_at c o' delta g m)))"
proof (rule ext)
  fix m :: int
  obtain d0 d1 d2 where d: "delta = (d0, d1, d2)" by (cases delta) auto
  note ne = idx3_neq [of c o'] idx3_neq [of o' c] idx3_neq [of c c] idx3_neq [of o' o']
    idx3_lt [OF assms]
  note defs = gpos_pair_update_def d Let_def pair_grad_at_def pair_sign_def vec3_nth_def
    nan_mul_simps nan_sub_Some nan_add_zero
  consider (c0) "m = 3 * c" | (c1) "m = 3 * c + 1" | (c2) "m = 3 * c + 2"
    | (o0) "m = 3 * o'" | (o1) "m = 3 * o' + 1" | (o2) "m = 3 * o' + 2"
    | (other) "m \<noteq> 3 * c" "m \<noteq> 3 * c + 1" "m \<noteq> 3 * c + 2"
        "m \<noteq> 3 * o'" "m \<noteq> 3 * o' + 1" "m \<noteq> 3 * o' + 2"
    by blast
  then show "gpos_pair_update c o' delta (Some g) gp m = nan_add (gp m) (Some (pair_grad_at c o' delta g m))"
  proof cases
    case c0
    with ne show ?thesis by (simp add: defs mult.commute)
  next
    case c1
    with ne show ?thesis by (simp add: defs mult.commute)
  next
    case c2
    with ne show ?thesis by (simp add: defs mult.commute)
  next
    case o0
    with ne show ?thesis by (simp add: defs mult.commute)
  next
    case o1
    with ne show ?thesis by (simp add: defs mult.commute)
  next
    case o2
    with ne show ?thesis by (simp add: defs mult.commute)
  next
    case other
    then show ?thesis by (simp add: defs)
  qed
qed

lemma corr_step_value:
  assumes "contributes c row \<longrightarrow> pair_dist mic pos c (row_i row) rv gv \<noteq> 0"
  shows "fst (corr_step mic pos c q rv gv a row (Some e, g, v)) =
           Some (e + pair_energy_value mic pos c q rv gv a row)
     \<and> fst (snd (corr_step mic pos c q rv gv a row (Some e, g, v))) =
           map_option (\<lambda>gp m. nan_add (gp m) (Some (pair_grad_value mic pos c q rv gv a row m))) g"
proof (cases "contributes c row")
  case False
  then show ?thesis
    by (simp add: corr_step_skip pair_energy_value_def pair_grad_value_def nan_add_zero
        option.map_ident)
next
  case True
  then have lt: "row_i row < c" by (simp add: contributes_def)
  from True assms have nz: "vec_len (pair_delta mic pos c (row_i row) rv gv) \<noteq> 0"
    by (simp add: pair_dist_def)
  show ?thesis
    using True
    by (cases g)
       (simp_all add: corr_step_def contributes_def Let_def pair_energy_value_def
          pair_grad_value_def pair_dist_def pair_g_nonzero [OF nz] pair_pot_nonzero [OF nz]
          pair_g_value_def gpos_pair_update_eq [OF lt] nan_simps)
qed

lemma corr_fold_value:
  assumes "\<forall>row\<in>set rows. contributes c row \<longrightarrow> pair_dist mic pos c (row_i row) rv gv \<noteq> 0"
  shows "fst (fold (corr_step mic pos c q rv gv a) rows (Some e, g, v)) =
           Some (e + (\<Sum>row\<leftarrow>rows. pair_energy_value mic pos c q rv gv a row))
     \<and> fst (snd (fold (corr_step mic pos c q rv gv a) rows (Some e, g, v))) =
           map_option (\<lambda>gp m. nan_add (gp m)
              (Some (\<Sum>row\<leftarrow>rows. pair_grad_value mic pos c q rv gv a row m))) g"
  using assms
proof (induction rows arbitrary: e g v)
  case Nil
  show ?case by (simp add: nan_add_zero option.map_ident)
next
  case (Cons row rows)
  obtain e1 g1 v1 where s: "corr_step mic pos c q rv gv a row (Some e, g, v) = (e1, g1, v1)"
    by (cases "corr_step mic pos c q rv gv a row (Some e, g, v)") auto
  from Cons.prems have h: "contributes c row \<longrightarrow> pair_dist mic pos c (row_i row) rv gv \<noteq> 0"
    and hs: "\<forall>row\<in>set rows. contributes c row \<longrightarrow> pair_dist mic pos c (row_i row) rv gv \<noteq> 0"
    by simp_all
  from corr_step_value [OF h, of q a e g v] s
  have e1: "e1 = Some (e + pair_energy_value mic pos c q rv gv a row)"
    and g1: "g1 = map_option (\<lambda>gp m. nan_add (gp m) (Some (pair_grad_value mic pos c q rv gv a row m))) g"
    by simp_all
  show ?case
    by (simp add: s e1 Cons.IH [OF hs] g1 option.map_comp comp_def nan_add_add add.assoc)
qed

lemma corr_value_form:
  assumes "\<forall>row\<in>set scaling. contributes c row \<longrightarrow> pair_dist mic pos c (row_i row) rv gv \<noteq> 0"
  shows "fst (compute_ewald_corr mic pos c q rv gv a scaling gpos vtens) =
     Some (- (a / M_SQRT_PI * q c * q c) + (\<Sum>row\<leftarrow>scaling. pair_energy_value mic pos c q rv gv a row))
   \<and> fst (snd (compute_ewald_corr mic pos c q rv gv a scaling gpos vtens)) =
     map_option (\<lambda>gp m. nan_add (gp m)
        (Some (\<Sum>row\<leftarrow>scaling. pair_grad_value mic pos c q rv gv a row m))) gpos"
  unfolding compute_ewald_corr_def Let_def nan_sub_simps
  using corr_fold_value [OF assms, of q a "0 - a / M_SQRT_PI * q c * q c" gpos vtens]
  by simp

subsection \<open>The gradient of the correction energy\<close>

lemma raw_delta_upd:
  "raw_delta (pos(m := t)) c o' =
     (vec3_nth (raw_delta pos c o') 0 + pair_sign c o' m 0 * (t - pos m),
      vec3_nth (raw_delta pos c o') 1 + pair_sign c o' m 1 * (t - pos m),
      vec3_nth (raw_delta pos c o') 2 + pair_sign c o' m 2 * (t - pos m))"
  by (simp add: raw_delta_def vec3_nth_def pair_sign_def)

lemma pair_sign_le: "\<bar>pair_sign c o' m a\<bar> \<le> 1"
  by (simp add: pair_sign_def)

lemma DERIV_radial:
  fixes al fac d0 d1 d2 s0 s1 s2 p :: real
  assumes nz: "sqrt (d0 * d0 + d1 * d1 + d2 * d2) \<noteq> 0"
  defines "u \<equiv> (\<lambda>t. (d0 + s0 * (t - p)) * (d0 + s0 * (t - p)) + (d1 + s1 * (t - p)) * (d1 + s1 * (t - p))
                      + (d2 + s2 * (t - p)) * (d2 + s2 * (t - p)))"
  shows "((\<lambda>t. - (fac * (erf (al * sqrt (u t)) / sqrt (u t)))) has_real_derivative
           pair_g_value al (sqrt (d0 * d0 + d1 * d1 + d2 * d2)) fac * (d0 * s0 + d1 * s1 + d2 * s2)) (at p)"
    and "eventually (\<lambda>t. sqrt (u t) \<noteq> 0) (nhds p)"
proof -
  define d where "d = sqrt (d0 * d0 + d1 * d1 + d2 * d2)"
  define S where "S = d0 * s0 + d1 * s1 + d2 * s2"
  have up: "u p = d0 * d0 + d1 * d1 + d2 * d2" by (simp add: u_def)
  have nn: "0 \<le> d0 * d0 + d1 * d1 + d2 * d2" by simp
  have ne: "d0 * d0 + d1 * d1 + d2 * d2 \<noteq> 0" using nz by auto
  have pos: "0 < u p" unfolding up using nn ne by linarith
  have dpos: "0 < d" using pos by (simp add: d_def up)
  have dd: "d * d = u p" using pos by (simp add: d_def up)
  have du: "(u has_real_derivative 2 * S) (at p)"
    unfolding u_def S_def by (auto intro!: derivative_eq_intros simp: algebra_simps)
  have "isCont u p" by (rule DERIV_isCont [OF du])
  then have "(u \<longlongrightarrow> u p) (nhds p)"
    by (simp add: isCont_def tendsto_at_iff_tendsto_nhds)
  from order_tendstoD(1) [OF this pos]
  show "eventually (\<lambda>t. sqrt (u t) \<noteq> 0) (nhds p)"
    by (rule eventually_mono) simp
  have dsq: "((\<lambda>t. sqrt (u t)) has_real_derivative S / d) (at p)"
  proof -
    have "((\<lambda>t. sqrt (u t)) has_real_derivative (inverse (sqrt (u p)) / 2) * (2 * S)) (at p)"
      by (rule DERIV_chain2 [OF DERIV_real_sqrt [OF pos] du])
    moreover have "inverse (sqrt (u p)) / 2 * (2 * S) = S / d"
      unfolding up d_def [symmetric] using dpos by (simp add: field_simps)
    ultimately show ?thesis by (simp only:)
  qed
  have de: "((\<lambda>t. erf (al * sqrt (u t))) has_real_derivative
       2 / sqrt pi * exp (- (al * d)\<^sup>2) * (al * (S / d))) (at p)"
  proof -
    have "((\<lambda>t. al * sqrt (u t)) has_real_derivative al * (S / d)) (at p)"
      by (rule DERIV_cmult [OF dsq])
    from DERIV_chain2 [OF DERIV_erf this] show ?thesis by (simp add: d_def up)
  qed
  have "((\<lambda>t. erf (al * sqrt (u t)) / sqrt (u t)) has_real_derivative
       (2 / sqrt pi * exp (- (al * d)\<^sup>2) * (al * (S / d)) * sqrt (u p)
          - erf (al * sqrt (u p)) * (S / d)) / (sqrt (u p) * sqrt (u p))) (at p)"
    by (rule DERIV_divide [OF de dsq]) (use pos in simp)
  then have "((\<lambda>t. erf (al * sqrt (u t)) / sqrt (u t)) has_real_derivative
       (2 / sqrt pi * exp (- (al * d)\<^sup>2) * (al * (S / d)) * d - erf (al * d) * (S / d)) / (d * d)) (at p)"
    by (simp only: d_def up)
  then have "((\<lambda>t. - (fac * (erf (al * sqrt (u t)) / sqrt (u t)))) has_real_derivative
       - (fac * ((2 / sqrt pi * exp (- (al * d)\<^sup>2) * (al * (S / d)) * d - erf (al * d) * (S / d)) / (d * d))))
       (at p)"
    by (intro DERIV_minus DERIV_cmult)
  moreover have "- (fac * ((2 / sqrt pi * exp (- (al * d)\<^sup>2) * (al * (S / d)) * d - erf (al * d) * (S / d)) / (d * d)))
      = pair_g_value al d fac * S"
    using dpos by (simp add: pair_g_value_def M_TWO_DIV_SQRT_PI_def power2_eq_square field_simps)
  ultimately show "((\<lambda>t. - (fac * (erf (al * sqrt (u t)) / sqrt (u t)))) has_real_derivative
           pair_g_value al (sqrt (d0 * d0 + d1 * d1 + d2 * d2)) fac * (d0 * s0 + d1 * s1 + d2 * s2)) (at p)"
    by (simp add: d_def S_def)
qed

lemma DERIV_pair_energy:
  assumes con: "contributes c row"
    and nz: "pair_dist mic pos c (row_i row) rv gv \<noteq> 0"
    and sh: "mic_shift_near mic rv gv (raw_delta pos c (row_i row))"
  shows "((\<lambda>t. pair_energy_value mic (pos(m := t)) c q rv gv a row) has_real_derivative
            pair_grad_value mic pos c q rv gv a row m) (at (pos m))"
    and "eventually (\<lambda>t. pair_dist mic (pos(m := t)) c (row_i row) rv gv \<noteq> 0) (nhds (pos m))"
proof -
  define o' where "o' = row_i row"
  define r0 r1 r2 where "r0 = vec3_nth (raw_delta pos c o') 0"
    and "r1 = vec3_nth (raw_delta pos c o') 1" and "r2 = vec3_nth (raw_delta pos c o') 2"
  define s0 s1 s2 where "s0 = pair_sign c o' m 0" and "s1 = pair_sign c o' m 1"
    and "s2 = pair_sign c o' m 2"
  define p where "p = pos m"
  define fac where "fac = pair_fac q c o' (row_scale row)"
  from sh obtain T0 T1 T2 eps where eps: "0 < eps"
    and mic: "\<And>d0 d1 d2. \<bar>d0 - r0\<bar> < eps \<Longrightarrow> \<bar>d1 - r1\<bar> < eps \<Longrightarrow> \<bar>d2 - r2\<bar> < eps
        \<Longrightarrow> mic (d0, d1, d2) rv gv 3 = (d0 + T0, d1 + T1, d2 + T2)"
    unfolding mic_shift_near_def o'_def [symmetric] r0_def [symmetric] r1_def [symmetric]
      r2_def [symmetric]
    by blast
  have raw: "raw_delta pos c o' = (r0, r1, r2)"
    by (simp add: r0_def r1_def r2_def raw_delta_def vec3_nth_def)
  have raw_t: "raw_delta (pos(m := t)) c o' = (r0 + s0 * (t - p), r1 + s1 * (t - p), r2 + s2 * (t - p))"
    for t
    by (simp only: raw_delta_upd r0_def r1_def r2_def s0_def s1_def s2_def p_def)
  have delta: "pair_delta mic pos c o' rv gv = (r0 + T0, r1 + T1, r2 + T2)"
    unfolding pair_delta_raw raw using eps by (intro mic) simp_all
  have sb: "\<bar>s0\<bar> \<le> 1" "\<bar>s1\<bar> \<le> 1" "\<bar>s2\<bar> \<le> 1"
    by (simp_all only: s0_def s1_def s2_def pair_sign_le)
  have small: "\<bar>s * (t - p)\<bar> < eps" if "\<bar>t - p\<bar> < eps" "\<bar>s\<bar> \<le> 1" for s t :: real
  proof -
    have "\<bar>s * (t - p)\<bar> \<le> 1 * \<bar>t - p\<bar>"
      unfolding abs_mult by (intro mult_right_mono that) simp
    with that show ?thesis by simp
  qed
  have delta_t: "pair_delta mic (pos(m := t)) c o' rv gv =
      (r0 + T0 + s0 * (t - p), r1 + T1 + s1 * (t - p), r2 + T2 + s2 * (t - p))"
    if "\<bar>t - p\<bar> < eps" for t
    unfolding pair_delta_raw raw_t
    by (subst mic) (simp_all add: small [OF that] sb)
  let ?u = "\<lambda>t. (r0 + T0 + s0 * (t - p)) * (r0 + T0 + s0 * (t - p))
                + (r1 + T1 + s1 * (t - p)) * (r1 + T1 + s1 * (t - p))
                + (r2 + T2 + s2 * (t - p)) * (r2 + T2 + s2 * (t - p))"
  have dist: "pair_dist mic pos c o' rv gv
      = sqrt ((r0 + T0) * (r0 + T0) + (r1 + T1) * (r1 + T1) + (r2 + T2) * (r2 + T2))"
    by (simp add: pair_dist_def delta vec_len_def)
  with nz have nz': "sqrt ((r0 + T0) * (r0 + T0) + (r1 + T1) * (r1 + T1) + (r2 + T2) * (r2 + T2)) \<noteq> 0"
    by (simp add: o'_def)
  have near: "eventually (\<lambda>t. \<bar>t - p\<bar> < eps) (nhds p)"
    unfolding eventually_nhds_metric dist_real_def using eps by blast
  have D: "((\<lambda>t. - (fac * (erf (a * sqrt (?u t)) / sqrt (?u t)))) has_real_derivative
      pair_g_value a (sqrt ((r0 + T0) * (r0 + T0) + (r1 + T1) * (r1 + T1) + (r2 + T2) * (r2 + T2))) fac
        * ((r0 + T0) * s0 + (r1 + T1) * s1 + (r2 + T2) * s2)) (at p)"
    by (rule DERIV_radial(1) [OF nz'])
  have E: "eventually (\<lambda>t. sqrt (?u t) \<noteq> 0) (nhds p)"
    by (rule DERIV_radial(2) [OF nz'])
  have ev: "eventually (\<lambda>t. pair_energy_value mic (pos(m := t)) c q rv gv a row
               = - (fac * (erf (a * sqrt (?u t)) / sqrt (?u t)))) (nhds p)"
    using near
  proof (rule eventually_mono)
    fix t :: real
    assume "\<bar>t - p\<bar> < eps"
    from delta_t [OF this] con
    show "pair_energy_value mic (pos(m := t)) c q rv gv a row = - (fac * (erf (a * sqrt (?u t)) / sqrt (?u t)))"
      by (simp add: pair_energy_value_def pair_dist_def vec_len_def o'_def [symmetric] fac_def)
  qed
  have g: "pair_grad_value mic pos c q rv gv a row m =
      pair_g_value a (sqrt ((r0 + T0) * (r0 + T0) + (r1 + T1) * (r1 + T1) + (r2 + T2) * (r2 + T2))) fac
        * ((r0 + T0) * s0 + (r1 + T1) * s1 + (r2 + T2) * s2)"
    using con
    by (simp add: pair_grad_value_def pair_grad_at_def o'_def [symmetric] dist delta vec3_nth_def
        fac_def s0_def s1_def s2_def)
  show "((\<lambda>t. pair_energy_value mic (pos(m := t)) c q rv gv a row) has_real_derivative
            pair_grad_value mic pos c q rv gv a row m) (at (pos m))"
    unfolding p_def [symmetric] g
    by (rule DERIV_cong_ev [THEN iffD2, OF refl ev refl D])
  show "eventually (\<lambda>t. pair_dist mic (pos(m := t)) c (row_i row) rv gv \<noteq> 0) (nhds (pos m))"
    unfolding p_def [symmetric] o'_def [symmetric]
    using eventually_conj [OF near E]
  proof (rule eventually_mono)
    fix t :: real
    assume "\<bar>t - p\<bar> < eps \<and> sqrt (?u t) \<noteq> 0"
    then show "pair_dist mic (pos(m := t)) c o' rv gv \<noteq> 0"
      by (simp add: pair_dist_def delta_t vec_len_def)
  qed
qed

lemma DERIV_sum_list:
  fixes f :: "real \<Rightarrow> 'a \<Rightarrow> real"
  assumes "\<And>x. x \<in> set xs \<Longrightarrow> ((\<lambda>t. f t x) has_real_derivative f' x) (at p)"
  shows "((\<lambda>t. \<Sum>x\<leftarrow>xs. f t x) has_real_derivative (\<Sum>x\<leftarrow>xs. f' x)) (at p)"
  using assms
proof (induction xs)
  case Nil
  show ?case by simp
next
  case (Cons x xs)
  have "((\<lambda>t. f t x + (\<Sum>y\<leftarrow>xs. f t y)) has_real_derivative f' x + (\<Sum>y\<leftarrow>xs. f' y)) (at p)"
    by (intro DERIV_add Cons.prems Cons.IH) simp_all
  then show ?case by simp
qed

lemma DERIV_pair_energy_any:
  assumes "contributes c row \<longrightarrow>
      pair_dist mic pos c (row_i row) rv gv \<noteq> 0 \<and> mic_shift_near mic rv gv (raw_delta pos c (row_i row))"
  shows "((\<lambda>t. pair_energy_value mic (pos(m := t)) c q rv gv a row) has_real_derivative
            pair_grad_value mic pos c q rv gv a row m) (at (pos m))"
    and "eventually (\<lambda>t. contributes c row \<longrightarrow> pair_dist mic (pos(m := t)) c (row_i row) rv gv \<noteq> 0)
           (nhds (pos m))"
proof -
  show "((\<lambda>t. pair_energy_value mic (pos(m := t)) c q rv gv a row) has_real_derivative
            pair_grad_value mic pos c q rv gv a row m) (at (pos m))"
  proof (cases "contributes c row")
    case True
    with assms show ?thesis by (intro DERIV_pair_energy(1)) simp_all
  next
    case False
    then show ?thesis by (simp add: pair_energy_value_def pair_grad_value_def)
  qed
  show "eventually (\<lambda>t. contributes c row \<longrightarrow> pair_dist mic (pos(m := t)) c (row_i row) rv gv \<noteq> 0)
           (nhds (pos m))"
  proof (cases "contributes c row")
    case True
    with assms have "eventually (\<lambda>t. pair_dist mic (pos(m := t)) c (row_i row) rv gv \<noteq> 0) (nhds (pos m))"
      by (intro DERIV_pair_energy(2)) simp_all
    then show ?thesis by (rule eventually_mono) simp
  next
    case False
    then show ?thesis by simp
  qed
qed

lemma corr_gradient_derivative:
  assumes "\<forall>row\<in>set scaling. row_i row < c \<longrightarrow>
      min_image_dist mic pos c (row_i row) rv gv \<noteq> 0 \<and> mic_shift_near mic rv gv (raw_delta pos c (row_i row))"
  shows "\<exists>gq' f D. fst (snd (compute_ewald_corr mic pos c q rv gv a scaling (Some gq) vtens)) = Some gq'
     \<and> eventually (\<lambda>t. fst (compute_ewald_corr mic (pos(m := t)) c q rv gv a scaling (Some gq) vtens)
                        = Some (f t)) (nhds (pos m))
     \<and> (f has_real_derivative D) (at (pos m))
     \<and> gq' m = nan_add (gq m) (Some D)"
proof -
  from assms have H: "\<forall>row\<in>set scaling. contributes c row \<longrightarrow>
      pair_dist mic pos c (row_i row) rv gv \<noteq> 0 \<and> mic_shift_near mic rv gv (raw_delta pos c (row_i row))"
    by (simp add: contributes_def pair_dist_min_image)
  then have H0: "\<forall>row\<in>set scaling. contributes c row \<longrightarrow> pair_dist mic pos c (row_i row) rv gv \<noteq> 0"
    by blast
  define f where "f = (\<lambda>t. - (a / M_SQRT_PI * q c * q c)
      + (\<Sum>row\<leftarrow>scaling. pair_energy_value mic (pos(m := t)) c q rv gv a row))"
  define D where "D = (\<Sum>row\<leftarrow>scaling. pair_grad_value mic pos c q rv gv a row m)"
  have "((\<lambda>t. \<Sum>row\<leftarrow>scaling. pair_energy_value mic (pos(m := t)) c q rv gv a row) has_real_derivative D)
      (at (pos m))"
    unfolding D_def using H by (intro DERIV_sum_list DERIV_pair_energy_any(1)) blast
  from DERIV_add [OF DERIV_const [of "- (a / M_SQRT_PI * q c * q c)"] this]
  have df: "(f has_real_derivative D) (at (pos m))"
    by (simp add: f_def)
  have "\<forall>row\<in>set scaling. eventually (\<lambda>t. contributes c row \<longrightarrow>
      pair_dist mic (pos(m := t)) c (row_i row) rv gv \<noteq> 0) (nhds (pos m))"
    using H by (intro ballI DERIV_pair_energy_any(2)) blast
  then have "eventually (\<lambda>t. \<forall>row\<in>set scaling. contributes c row \<longrightarrow>
      pair_dist mic (pos(m := t)) c (row_i row) rv gv \<noteq> 0) (nhds (pos m))"
    by (intro eventually_ball_finite) simp_all
  then have ev: "eventually (\<lambda>t. fst (compute_ewald_corr mic (pos(m := t)) c q rv gv a scaling (Some gq) vtens)
                        = Some (f t)) (nhds (pos m))"
  proof (rule eventually_mono)
    fix t
    assume "\<forall>row\<in>set scaling. contributes c row \<longrightarrow>
      pair_dist mic (pos(m := t)) c (row_i row) rv gv \<noteq> 0"
    from conjunct1 [OF corr_value_form [OF this]]
    show "fst (compute_ewald_corr mic (pos(m := t)) c q rv gv a scaling (Some gq) vtens) = Some (f t)"
      by (simp add: f_def)
  qed
  have gq: "fst (snd (compute_ewald_corr mic pos c q rv gv a scaling (Some gq) vtens)) =
      Some (\<lambda>m. nan_add (gq m) (Some (\<Sum>row\<leftarrow>scaling. pair_grad_value mic pos c q rv gv a row m)))"
    using conjunct2 [OF corr_value_form [OF H0], of q a "Some gq" vtens] by simp
  show ?thesis
    by (intro exI conjI, rule gq, rule ev, rule df) (simp add: D_def)
qed

text \<open>
  C3, as stated, fails: with both atoms at the origin the listed pair has distance zero;
  the energy that \<open>compute_ewald_corr\<close> returns is then NaN, which has no derivative, and
  the gradient entries of the pair are NaN.
\<close>

theorem corr_gradient_zero_distance:
  "fst (compute_ewald_corr mic_unchanged scn_coincident 1 scn_charges scn_rvecs scn_gvecs (3 / 10)
       [\<lparr>row_i = 0, row_scale = 0\<rparr>] (Some zero_dbuf) None) = None
   \<and> fst (snd (compute_ewald_corr mic_unchanged scn_coincident 1 scn_charges scn_rvecs scn_gvecs (3 / 10)
       [\<lparr>row_i = 0, row_scale = 0\<rparr>] (Some zero_dbuf) None))
     = Some (zero_dbuf(3 := None, 4 := None, 5 := None, 0 := None, 1 := None, 2 := None))"
proof -
  have lt: "row_i \<lparr>row_i = 0, row_scale = 0\<rparr> < (1::int)" by simp
  have z: "min_image_dist mic_unchanged scn_coincident 1 (row_i \<lparr>row_i = 0, row_scale = 0\<rparr>)
      scn_rvecs scn_gvecs = 0"
    by (simp add: scn_coincident_dist)
  note st = corr_step_zero_distance [OF lt z, of scn_charges "3 / 10"]
  show ?thesis
    by (simp add: compute_ewald_corr_def st)
qed

text \<open>
  C3, amended. The gradient that a call accumulates into the gradient buffer is the
  derivative of the returned energy: for every coordinate \<open>m\<close> of the position array, what
  the call adds to entry \<open>m\<close> of the buffer is the partial derivative of the energy with
  respect to that coordinate. For \<open>compute_ewald_reci\<close> this holds for every configuration.
  For \<open>compute_ewald_corr\<close> it holds for every configuration in which each row that
  contributes joins two atoms at a minimum-image distance other than zero, the
  minimum-image collaborator being locally a translation at the displacement of the pair:
  near the configuration the returned energy is a number, a differentiable function of
  the coordinate, and its derivative is what the call adds to entry \<open>m\<close>.
\<close>

theorem ewald_gradient_is_derivative:
  "(\<exists>gp'. fst (snd (compute_ewald_reci pos natom charges gvecs volume alpha gmax (Some gp) work)) = Some gp'
      \<and> ((\<lambda>t. fst (compute_ewald_reci (pos(m := t)) natom charges gvecs volume alpha gmax (Some gp) work))
            has_real_derivative gp' m - gp m) (at (pos m)))
   \<and> ((\<forall>row\<in>set scaling. row_i row < c \<longrightarrow>
          min_image_dist mic pos c (row_i row) rvecs gvecs \<noteq> 0
          \<and> mic_shift_near mic rvecs gvecs (raw_delta pos c (row_i row)))
       \<longrightarrow> (\<exists>gq' f D.
            fst (snd (compute_ewald_corr mic pos c charges rvecs gvecs alpha scaling (Some gq) vtens)) = Some gq'
          \<and> eventually (\<lambda>t. fst (compute_ewald_corr mic (pos(m := t)) c charges rvecs gvecs alpha scaling
                                    (Some gq) vtens) = Some (f t)) (nhds (pos m))
          \<and> (f has_real_derivative D) (at (pos m))
          \<and> gq' m = nan_add (gq m) (Some D)))"
proof (intro conjI impI)
  show "\<exists>gp'. fst (snd (compute_ewald_reci pos natom charges gvecs volume alpha gmax (Some gp) work)) = Some gp'
      \<and> ((\<lambda>t. fst (compute_ewald_reci (pos(m := t)) natom charges gvecs volume alpha gmax (Some gp) work))
            has_real_derivative gp' m - gp m) (at (pos m))"
    by (rule reci_gradient_derivative)
next
  assume "\<forall>row\<in>set scaling. row_i row < c \<longrightarrow>
          min_image_dist mic pos c (row_i row) rvecs gvecs \<noteq> 0
          \<and> mic_shift_near mic rvecs gvecs (raw_delta pos c (row_i row))"
  then show "\<exists>gq' f D.
            fst (snd (compute_ewald_corr mic pos c charges rvecs gvecs alpha scaling (Some gq) vtens)) = Some gq'
          \<and> eventually (\<lambda>t. fst (compute_ewald_corr mic (pos(m := t)) c charges rvecs gvecs alpha scaling
                                    (Some gq) vtens) = Some (f t)) (nhds (pos m))
          \<and> (f has_real_derivative D) (at (pos m))
          \<and> gq' m = nan_add (gq m) (Some D)"
    by (rule corr_gradient_derivative)
qed

lemma mic_unchanged_shift: "mic_shift_near mic_unchanged rv gv delta"
  unfolding mic_shift_near_def mic_unchanged_def
  by (intro exI [of _ 0] exI [of _ 1]) simp

theorem ewald_gradient_is_derivative_witness:
  "(\<exists>gp'. fst (snd (compute_ewald_reci scn_pos 2 scn_charges scn_gvecs 1000 (3 / 10) scn_gmax
                       (Some zero_buf) zero_buf)) = Some gp'
      \<and> ((\<lambda>t. fst (compute_ewald_reci (scn_pos(3 := t)) 2 scn_charges scn_gvecs 1000 (3 / 10) scn_gmax
                       (Some zero_buf) zero_buf))
            has_real_derivative gp' 3 - zero_buf 3) (at (scn_pos 3)))
   \<and> (\<exists>gq' f D.
         fst (snd (compute_ewald_corr mic_unchanged scn_pos 1 scn_charges scn_rvecs scn_gvecs (3 / 10)
                       [\<lparr>row_i = 0, row_scale = 0\<rparr>] (Some zero_dbuf) None)) = Some gq'
      \<and> eventually (\<lambda>t. fst (compute_ewald_corr mic_unchanged (scn_pos(3 := t)) 1 scn_charges scn_rvecs
                       scn_gvecs (3 / 10) [\<lparr>row_i = 0, row_scale = 0\<rparr>] (Some zero_dbuf) None)
                         = Some (f t)) (nhds (scn_pos 3))
      \<and> (f has_real_derivative D) (at (scn_pos 3))
      \<and> gq' 3 = nan_add (zero_dbuf 3) (Some D))"
proof -
  have h: "\<forall>row\<in>set [\<lparr>row_i = 0, row_scale = 0\<rparr>]. row_i row < 1 \<longrightarrow>
          min_image_dist mic_unchanged scn_pos 1 (row_i row) scn_rvecs scn_gvecs \<noteq> 0
          \<and> mic_shift_near mic_unchanged scn_rvecs scn_gvecs (raw_delta scn_pos 1 (row_i row))"
    by (simp add: scn_min_image mic_unchanged_shift)
  note t = ewald_gradient_is_derivative [of scn_pos 2 scn_charges scn_gvecs 1000 "3 / 10" scn_gmax
      zero_buf zero_buf 3 "[\<lparr>row_i = 0, row_scale = 0\<rparr>]" 1 mic_unchanged scn_rvecs zero_dbuf None]
  show ?thesis
    by (rule conjI [OF conjunct1 [OF t] mp [OF conjunct2 [OF t] h]])
qed

subsection \<open>Invalid arguments\<close>









end
